theory Spec2Isabelle
  imports Complex_Main "HOL-Library.AList"
begin

section \<open>JavaScript values used by the plugins\<close>

text \<open>
  Health values, combat levels, map levels, tile coordinates and clock readings
  (\<open>Date.now()\<close>, milliseconds) are integers far below \<open>2^53\<close>, so they are
  modelled as \<open>int\<close>. A property that may be missing (\<open>undefined\<close>) is an
  \<open>option\<close>. The only non-integer number the spawn timer can produce is \<open>NaN\<close>.
  Strings are ASCII character lists.
\<close>

datatype js_number = Num int | NaN

datatype js_error = TypeError

text \<open>\<open>a || d\<close> for a possibly missing number \<open>a\<close>: \<open>undefined\<close> and \<open>0\<close> are falsy.\<close>

fun or_num :: "int option \<Rightarrow> int \<Rightarrow> int" where
  "or_num None d = d"
| "or_num (Some n) d = (if n = 0 then d else n)"

text \<open>\<open>obj?.field\<close> for a possibly missing object.\<close>

definition opt_field :: "'a option \<Rightarrow> ('a \<Rightarrow> 'b option) \<Rightarrow> 'b option" where
  "opt_field obj f = (case obj of None \<Rightarrow> None | Some v \<Rightarrow> f v)"

text \<open>\<open>a ?? b\<close> and, for objects, \<open>a || b\<close>: the first operand unless it is missing.\<close>

definition or_else :: "'a option \<Rightarrow> 'a option \<Rightarrow> 'a option" where
  "or_else a b = (case a of None \<Rightarrow> b | Some v \<Rightarrow> Some v)"

definition toLowerChar :: "char \<Rightarrow> char" where
  "toLowerChar c =
     (case map_of (zip ''ABCDEFGHIJKLMNOPQRSTUVWXYZ'' ''abcdefghijklmnopqrstuvwxyz'') c of
        None \<Rightarrow> c
      | Some l \<Rightarrow> l)"

definition toLowerCase :: "string \<Rightarrow> string" where
  "toLowerCase s = map toLowerChar s"

fun startsWith :: "string \<Rightarrow> string \<Rightarrow> bool" where
  "startsWith s [] = True"
| "startsWith [] (p # ps) = False"
| "startsWith (c # cs) (p # ps) = (c = p \<and> startsWith cs ps)"

text \<open>\<open>s.includes(sub)\<close>: \<open>sub\<close> occurs in \<open>s\<close> as a contiguous substring.\<close>

fun str_includes :: "string \<Rightarrow> string \<Rightarrow> bool" where
  "str_includes [] sub = (sub = [])"
| "str_includes (c # cs) sub = (startsWith (c # cs) sub \<or> str_includes cs sub)"

text \<open>
  A \<open>Map\<close> is an association list in insertion order with distinct keys:
  \<open>has\<close> is \<open>map_has\<close>, \<open>get\<close> is \<open>map_of\<close>, \<open>set\<close> is \<open>AList.update\<close> (in place for a
  present key, appended for a new one), \<open>delete\<close> is \<open>AList.delete\<close>; a field
  assignment through the object returned by \<open>get\<close> is \<open>AList.map_entry\<close>.
\<close>

definition map_has :: "('k \<times> 'v) list \<Rightarrow> 'k \<Rightarrow> bool" where
  "map_has m k = (map_of m k \<noteq> None)"


section \<open>NPC Spawn Timer: data\<close>

type_synonym npc_id = nat

record hitpoints =
  h_currentLevel :: "int option"
  h_level :: "int option"

record npc_definition =
  d_name :: "string option"
  d_nameCapitalized :: "string option"

record game_position =
  g_x :: "int option"
  g_z :: "int option"

record combat =
  c_level :: "int option"

text \<open>
  A host NPC object: \<open>_def\<close>, \<open>_hitpoints\<close>, \<open>Hitpoints\<close>, \<open>_combat\<close>,
  \<open>_currentGamePosition\<close>, \<open>_lastGamePosition\<close>, \<open>_currentMapLevel\<close>.
\<close>

record npc =
  n_def :: "npc_definition option"
  n_hitpoints :: "hitpoints option"
  n_Hitpoints :: "hitpoints option"
  n_combat :: "combat option"
  n_currentGamePosition :: "game_position option"
  n_lastGamePosition :: "game_position option"
  n_currentMapLevel :: "int option"

text \<open>\<open>entityManager._npcs\<close>: the host registry, a map from id to NPC object (or null).\<close>

record entity_manager =
  em_npcs :: "(npc_id \<times> npc option) list option"

record position =
  p_x :: int
  p_y :: int

text \<open>
  An entry of \<open>npcHealthMap\<close>: \<open>{hp, maxHP, name}\<close>, to which \<open>onNPCDeath\<close> adds
  \<open>position\<close>, \<open>level\<close> and \<open>npcRef\<close>. The reference is modelled by the NPC as it was
  when the death was seen.
\<close>

record health_data =
  hd_hp :: int
  hd_maxHP :: int
  hd_name :: "string option"
  hd_position :: "position option"
  hd_level :: "int option"
  hd_npcRef :: "npc option"

text \<open>
  \<open>customRespawnTimes[npcName] || defaultRespawnTime\<close> is a number of seconds, or, for
  a name that \<open>Object.prototype\<close> defines, the inherited member of that name.
\<close>

datatype respawn_value = Seconds int | Inherited string

text \<open>An entry of \<open>trackedNPCs\<close>; a missing \<open>spawned\<close> field is \<open>False\<close>.\<close>

record timer =
  t_id :: npc_id
  t_name :: "string option"
  t_position :: position
  t_level :: int
  t_spawnTimestamp :: js_number
  t_respawnTime :: respawn_value
  t_alerted :: bool
  t_spawned :: bool

type_synonym health_map = "(npc_id \<times> health_data) list"

type_synonym timer_map = "(npc_id \<times> timer) list"

record plugin_state =
  npcHealthMap :: health_map
  trackedNPCs :: timer_map

text \<open>The tunables the constructor sets.\<close>

record config =
  defaultRespawnTime :: int
  customRespawnTimes :: "(string \<times> int) list"
  alertThreshold :: int
  autoTrackEnabled :: bool
  minNPCLevel :: int
  trackBosses :: bool
  bossKeywords :: "string list"
  blacklistedNames :: "string list"

definition default_config :: config where
  "default_config =
     \<lparr> defaultRespawnTime = 120,
       customRespawnTimes =
         [(''King Goblin Jockey'', 900), (''Damogui'', 900), (''Isradore's Dragon'', 900),
          (''Fire Dragon'', 600), (''Water Dragon'', 600), (''Plains Dragon'', 600),
          (''Elder Knight'', 420), (''Hell Giant'', 420), (''Corrupt Minotaur'', 360),
          (''Cave Bear'', 360),
          (''Frost Giant'', 300), (''Hell Warrior'', 300), (''Minotaur'', 300),
          (''Forest Giant'', 240), (''Giant'', 240),
          (''Knight'', 240), (''Elder Knight'', 420), (''Forest Warrior'', 180),
          (''Frost Warrior'', 180),
          (''Dragon Hatchling'', 150),
          (''Brute'', 120), (''Dark Monk'', 120), (''Skeletal Mage'', 120),
          (''Giant Skeleton'', 180),
          (''Suit Of Armour'', 60), (''Blood Mage'', 60), (''Charred Skeleton'', 60)],
       alertThreshold = 15,
       autoTrackEnabled = True,
       minNPCLevel = 30,
       trackBosses = True,
       bossKeywords =
         [''dragon'', ''giant'', ''knight'', ''elder'', ''king'', ''boss'', ''warrior'',
          ''minotaur'', ''isradore'', ''damogui'', ''hell'', ''frost'', ''corrupt''],
       blacklistedNames =
         [''rat'', ''chicken'', ''cow'', ''squirrel'', ''rooster'', ''farmer'',
          ''nisse'', ''man'', ''old man'', ''fisherman'', ''lumberjack'',
          ''sewer rat'', ''cave chicken'', ''bear cub''] \<rparr>"

text \<open>What a tick leaves behind: the state, and the exception if one escaped.\<close>

datatype outcome = Completed plugin_state | Threw js_error plugin_state

fun state_of :: "outcome \<Rightarrow> plugin_state" where
  "state_of (Completed s) = s"
| "state_of (Threw e s) = s"

datatype notification =
  HasSpawned "string option"
| SpawningIn "string option" int


section \<open>NPC Spawn Timer: operations\<close>

subsection \<open>shouldTrackNPC\<close>

text \<open>
  \<open>npcName.toLowerCase()\<close> throws a \<open>TypeError\<close> when the name is \<open>undefined\<close>; the
  master switch is tested before that.
\<close>

definition combatLevel :: "npc \<Rightarrow> int" where
  "combatLevel n = or_num (opt_field (n_combat n) c_level) 0"

definition isBlacklisted :: "config \<Rightarrow> string \<Rightarrow> bool" where
  "isBlacklisted cfg nm =
     list_ex (\<lambda>blacklisted. str_includes (toLowerCase nm) (toLowerCase blacklisted))
       (blacklistedNames cfg)"

definition hasBossKeyword :: "config \<Rightarrow> string \<Rightarrow> bool" where
  "hasBossKeyword cfg nm =
     list_ex (\<lambda>keyword. str_includes (toLowerCase nm) (toLowerCase keyword))
       (bossKeywords cfg)"

definition shouldTrackNPC :: "config \<Rightarrow> npc \<Rightarrow> string option \<Rightarrow> js_error + bool" where
  "shouldTrackNPC cfg n npcName =
     (if \<not> autoTrackEnabled cfg then Inr False
      else case npcName of
        None \<Rightarrow> Inl TypeError
      | Some nm \<Rightarrow>
          if isBlacklisted cfg nm then Inr False
          else if trackBosses cfg \<and> hasBossKeyword cfg nm then Inr True
          else if combatLevel n \<ge> minNPCLevel cfg then Inr True
          else Inr False)"

subsection \<open>trackNPCDeath\<close>

text \<open>
  The names every plain object inherits from \<open>Object.prototype\<close>. The table is an
  object literal, so a lookup by one of these names finds the inherited member (a
  function or object, which is truthy) unless the table has the name itself.
\<close>

definition objectPrototypeNames :: "string list" where
  "objectPrototypeNames =
     [''constructor'', ''hasOwnProperty'', ''isPrototypeOf'', ''propertyIsEnumerable'',
      ''toLocaleString'', ''toString'', ''valueOf'', ''__proto__'',
      ''__defineGetter__'', ''__defineSetter__'', ''__lookupGetter__'',
      ''__lookupSetter__'']"

definition propertyKey :: "string option \<Rightarrow> string" where
  "propertyKey npcName = (case npcName of None \<Rightarrow> ''undefined'' | Some s \<Rightarrow> s)"

text \<open>In an object literal the last of two equal keys wins.\<close>

definition ownProperty :: "(string \<times> int) list \<Rightarrow> string \<Rightarrow> int option" where
  "ownProperty tbl key = map_of (rev tbl) key"

definition respawnTimeFor :: "config \<Rightarrow> string option \<Rightarrow> respawn_value" where
  "respawnTimeFor cfg npcName =
     (let key = propertyKey npcName in
      case ownProperty (customRespawnTimes cfg) key of
        Some v \<Rightarrow> if v \<noteq> 0 then Seconds v else Seconds (defaultRespawnTime cfg)
      | None \<Rightarrow>
          if key \<in> set objectPrototypeNames then Inherited key
          else Seconds (defaultRespawnTime cfg))"

text \<open>\<open>Date.now() + (respawnTime * 1000)\<close>; a function or object times 1000 is \<open>NaN\<close>.\<close>

fun spawnTimestampFor :: "int \<Rightarrow> respawn_value \<Rightarrow> js_number" where
  "spawnTimestampFor now (Seconds r) = Num (now + r * 1000)"
| "spawnTimestampFor now (Inherited k) = NaN"

definition newTimer :: "config \<Rightarrow> int \<Rightarrow> npc_id \<Rightarrow> string option \<Rightarrow> position \<Rightarrow> int \<Rightarrow> timer" where
  "newTimer cfg now npcId npcName pos lvl =
     (let respawnTime = respawnTimeFor cfg npcName in
      \<lparr> t_id = npcId, t_name = npcName, t_position = pos, t_level = lvl,
        t_spawnTimestamp = spawnTimestampFor now respawnTime,
        t_respawnTime = respawnTime, t_alerted = False, t_spawned = False \<rparr>)"

definition trackNPCDeath ::
  "config \<Rightarrow> int \<Rightarrow> npc_id \<Rightarrow> string option \<Rightarrow> position \<Rightarrow> int \<Rightarrow> timer_map \<Rightarrow> timer_map" where
  "trackNPCDeath cfg now npcId npcName pos lvl tracked =
     AList.update npcId (newTimer cfg now npcId npcName pos lvl) tracked"

subsection \<open>monitorNPCHealth\<close>

definition hitpointsOf :: "npc \<Rightarrow> hitpoints option" where
  "hitpointsOf n = or_else (n_hitpoints n) (n_Hitpoints n)"

definition currentHP :: "hitpoints \<Rightarrow> int" where
  "currentHP h = or_num (h_currentLevel h) (or_num (h_level h) 0)"

definition maxHP :: "hitpoints \<Rightarrow> int" where
  "maxHP h = or_num (h_level h) 100"

text \<open>
  \<open>onNPCDeath\<close> caches position, map level and the NPC in the entry of the id (tile
  coordinates are integers, so \<open>Math.round\<close> leaves them as they are).
\<close>

definition onNPCDeath :: "npc_id \<Rightarrow> npc \<Rightarrow> health_map \<Rightarrow> health_map" where
  "onNPCDeath npcId n m =
     (case n_def n of
        None \<Rightarrow> m
      | Some d \<Rightarrow>
          (let pos = \<lparr> p_x = or_num (opt_field (n_currentGamePosition n) g_x)
                               (or_num (opt_field (n_lastGamePosition n) g_x) 0),
                       p_y = or_num (opt_field (n_currentGamePosition n) g_z)
                               (or_num (opt_field (n_lastGamePosition n) g_z) 0) \<rparr>;
               lvl = or_num (n_currentMapLevel n) 1
           in AList.map_entry npcId
                (\<lambda>healthData. healthData\<lparr> hd_position := Some pos, hd_level := Some lvl,
                                           hd_npcRef := Some n \<rparr>) m))"

text \<open>
  One iteration of the first loop. The accumulator is \<open>currentNPCIds\<close>, the ids for
  which \<open>onNPCDeath\<close> was called so far (its log lines), and the health map.
\<close>

fun observeNPC ::
  "(npc_id \<times> npc option) \<Rightarrow> npc_id set \<times> npc_id list \<times> health_map \<Rightarrow>
   npc_id set \<times> npc_id list \<times> health_map" where
  "observeNPC (npcId, None) acc = acc"
| "observeNPC (npcId, Some n) (ids, deaths, m) =
     (case n_def n of
        None \<Rightarrow> (ids, deaths, m)
      | Some d \<Rightarrow>
          (case hitpointsOf n of
             None \<Rightarrow> (insert npcId ids, deaths, m)
           | Some h \<Rightarrow>
               (case map_of m npcId of
                  None \<Rightarrow>
                    (insert npcId ids, deaths,
                     AList.update npcId
                       \<lparr> hd_hp = currentHP h, hd_maxHP = maxHP h, hd_name = d_name d,
                         hd_position = None, hd_level = None, hd_npcRef = None \<rparr> m)
                | Some stored \<Rightarrow>
                    (if hd_hp stored > 0 \<and> currentHP h = 0
                     then (insert npcId ids, deaths @ [npcId],
                           AList.map_entry npcId (\<lambda>s. s\<lparr> hd_hp := currentHP h \<rparr>)
                             (onNPCDeath npcId n m))
                     else (insert npcId ids, deaths,
                           AList.map_entry npcId (\<lambda>s. s\<lparr> hd_hp := currentHP h \<rparr>) m)))))"

definition observeNPCs ::
  "(npc_id \<times> npc option) list \<Rightarrow> health_map \<Rightarrow> npc_id set \<times> npc_id list \<times> health_map" where
  "observeNPCs npcs m = fold observeNPC npcs ({}, [], m)"

definition currentNPCIds :: "(npc_id \<times> npc option) list \<Rightarrow> health_map \<Rightarrow> npc_id set" where
  "currentNPCIds npcs m = fst (observeNPCs npcs m)"

definition deathsObserved :: "(npc_id \<times> npc option) list \<Rightarrow> health_map \<Rightarrow> npc_id list" where
  "deathsObserved npcs m = fst (snd (observeNPCs npcs m))"

definition observedHealth :: "(npc_id \<times> npc option) list \<Rightarrow> health_map \<Rightarrow> health_map" where
  "observedHealth npcs m = snd (snd (observeNPCs npcs m))"

definition despawnTimer :: "config \<Rightarrow> int \<Rightarrow> npc_id \<Rightarrow> health_data \<Rightarrow> plugin_state \<Rightarrow> plugin_state" where
  "despawnTimer cfg now npcId healthData s =
     (let pos = (case hd_position healthData of None \<Rightarrow> \<lparr> p_x = 0, p_y = 0 \<rparr> | Some p \<Rightarrow> p);
          lvl = or_num (hd_level healthData) 1
      in s\<lparr> trackedNPCs := trackNPCDeath cfg now npcId (hd_name healthData) pos lvl (trackedNPCs s),
            npcHealthMap := AList.delete npcId (npcHealthMap s) \<rparr>)"

text \<open>
  One iteration of the second loop: it finishes (also by \<open>continue\<close>) or throws what
  \<open>shouldTrackNPC\<close> throws, before anything is changed.
\<close>

definition despawnEntry ::
  "config \<Rightarrow> int \<Rightarrow> npc_id set \<Rightarrow> npc_id \<times> health_data \<Rightarrow> plugin_state \<Rightarrow> outcome" where
  "despawnEntry cfg now ids entry s =
     (case entry of (npcId, healthData) \<Rightarrow>
        if npcId \<notin> ids \<and> hd_hp healthData = 0 then
          (if \<not> map_has (trackedNPCs s) npcId then
             (case hd_npcRef healthData of
                None \<Rightarrow> Completed (despawnTimer cfg now npcId healthData s)
              | Some npcRef \<Rightarrow>
                  (case shouldTrackNPC cfg npcRef (hd_name healthData) of
                     Inl e \<Rightarrow> Threw e s
                   | Inr False \<Rightarrow>
                       Completed (s\<lparr> npcHealthMap := AList.delete npcId (npcHealthMap s) \<rparr>)
                   | Inr True \<Rightarrow> Completed (despawnTimer cfg now npcId healthData s)))
           else Completed (s\<lparr> npcHealthMap := AList.delete npcId (npcHealthMap s) \<rparr>))
        else Completed s)"

text \<open>
  The second loop, over the entries the health map has when the loop starts (only the
  entry being visited is ever deleted). An exception leaves the loop with the state as
  it is at that point.
\<close>

fun despawnLoop ::
  "config \<Rightarrow> int \<Rightarrow> npc_id set \<Rightarrow> (npc_id \<times> health_data) list \<Rightarrow> plugin_state \<Rightarrow> outcome" where
  "despawnLoop cfg now ids [] s = Completed s"
| "despawnLoop cfg now ids (entry # rest) s =
     (case despawnEntry cfg now ids entry s of
        Threw e s' \<Rightarrow> Threw e s'
      | Completed s' \<Rightarrow> despawnLoop cfg now ids rest s')"

text \<open>
  \<open>monitorNPCHealth\<close>, given \<open>this.entityManager\<close> as it is on this tick. All clock
  reads of one call return \<open>now\<close>.
\<close>

definition monitorNPCHealth ::
  "config \<Rightarrow> int \<Rightarrow> entity_manager option \<Rightarrow> plugin_state \<Rightarrow> outcome" where
  "monitorNPCHealth cfg now em s =
     (case opt_field em em_npcs of
        None \<Rightarrow> Completed s
      | Some npcs \<Rightarrow>
          (let m = observedHealth npcs (npcHealthMap s)
           in despawnLoop cfg now (currentNPCIds npcs (npcHealthMap s)) m
                (s\<lparr> npcHealthMap := m \<rparr>)))"

subsection \<open>updateTimers\<close>

text \<open>\<open>Math.max(0, Math.floor((spawnTimestamp - now) / 1000))\<close>.\<close>

fun timeRemaining :: "int \<Rightarrow> js_number \<Rightarrow> js_number" where
  "timeRemaining now (Num ts) = Num (max 0 ((ts - now) div 1000))"
| "timeRemaining now NaN = NaN"

text \<open>One iteration of the first loop: the timer afterwards and what it notified.\<close>

definition updateTimer :: "config \<Rightarrow> int \<Rightarrow> timer \<Rightarrow> timer \<times> notification list" where
  "updateTimer cfg now t =
     (case timeRemaining now (t_spawnTimestamp t) of
        NaN \<Rightarrow> (t, [])
      | Num r \<Rightarrow>
          if r = 0 then
            (if \<not> t_spawned t then (t\<lparr> t_spawned := True \<rparr>, [HasSpawned (t_name t)])
             else (t, []))
          else if r \<le> alertThreshold cfg \<and> \<not> t_alerted t
          then (t\<lparr> t_alerted := True \<rparr>, [SpawningIn (t_name t) r])
          else (t, []))"

text \<open>\<open>timer.spawned && (now - timer.spawnTimestamp) > 30000\<close>.\<close>

definition expired :: "int \<Rightarrow> timer \<Rightarrow> bool" where
  "expired now t =
     (t_spawned t \<and> (case t_spawnTimestamp t of NaN \<Rightarrow> False | Num ts \<Rightarrow> now - ts > 30000))"

definition flagPass :: "config \<Rightarrow> int \<Rightarrow> timer_map \<Rightarrow> timer_map" where
  "flagPass cfg now tracked = map (\<lambda>(npcId, t). (npcId, fst (updateTimer cfg now t))) tracked"

text \<open>The notifications of a tick, each with the key of the entry that emitted it.\<close>

definition notifications :: "config \<Rightarrow> int \<Rightarrow> timer_map \<Rightarrow> (npc_id \<times> notification) list" where
  "notifications cfg now tracked =
     concat (map (\<lambda>(npcId, t). map (Pair npcId) (snd (updateTimer cfg now t))) tracked)"

definition sweep :: "int \<Rightarrow> timer_map \<Rightarrow> timer_map" where
  "sweep now tracked = filter (\<lambda>(npcId, t). \<not> expired now t) tracked"

definition updateTimers ::
  "config \<Rightarrow> int \<Rightarrow> timer_map \<Rightarrow> timer_map \<times> (npc_id \<times> notification) list" where
  "updateTimers cfg now tracked =
     (sweep now (flagPass cfg now tracked), notifications cfg now tracked)"

subsection \<open>GameLoop_update\<close>

text \<open>
  \<open>active\<close> stands for \<open>this.settings.enable.value && this.timerContainer\<close>; an
  exception of \<open>monitorNPCHealth\<close> skips \<open>updateTimers\<close>.
\<close>

definition GameLoop_update ::
  "config \<Rightarrow> bool \<Rightarrow> int \<Rightarrow> int \<Rightarrow> entity_manager option \<Rightarrow> plugin_state \<Rightarrow>
   outcome \<times> (npc_id \<times> notification) list" where
  "GameLoop_update cfg active now1 now2 em s =
     (if \<not> active then (Completed s, [])
      else case monitorNPCHealth cfg now1 em s of
        Threw e s' \<Rightarrow> (Threw e s', [])
      | Completed s' \<Rightarrow>
          (let (tracked, notes) = updateTimers cfg now2 (trackedNPCs s')
           in (Completed (s'\<lparr> trackedNPCs := tracked \<rparr>), notes)))"

definition init_state :: plugin_state where
  "init_state = \<lparr> npcHealthMap = [], trackedNPCs = [] \<rparr>"

text \<open>
  Successive calls of \<open>monitorNPCHealth\<close>, one per frame, each with its clock reading
  and the entity manager of that frame; a frame that threw leaves its state to the next.
\<close>

fun monitorTicks ::
  "config \<Rightarrow> (int \<times> entity_manager option) list \<Rightarrow> plugin_state \<Rightarrow> plugin_state" where
  "monitorTicks cfg [] s = s"
| "monitorTicks cfg ((now, em) # ticks) s =
     monitorTicks cfg ticks (state_of (monitorNPCHealth cfg now em s))"

text \<open>Successive frames: \<open>GameLoop_update\<close> with the plugin enabled and its panel built.\<close>

fun gameTicks ::
  "config \<Rightarrow> (int \<times> entity_manager option) list \<Rightarrow> plugin_state \<Rightarrow> plugin_state" where
  "gameTicks cfg [] s = s"
| "gameTicks cfg ((now, em) # ticks) s =
     gameTicks cfg ticks (state_of (fst (GameLoop_update cfg True now now em s)))"

text \<open>
  The test of the second loop for a despawn: the id is not in \<open>currentNPCIds\<close> and the
  cached health is zero. And the test it applies before a timer is made: there is no
  cached NPC reference, or \<open>shouldTrackNPC\<close> accepts the cached one.
\<close>

definition confirmed :: "npc_id set \<Rightarrow> npc_id \<times> health_data \<Rightarrow> bool" where
  "confirmed ids entry = (fst entry \<notin> ids \<and> hd_hp (snd entry) = 0)"

definition passesFilter :: "config \<Rightarrow> health_data \<Rightarrow> bool" where
  "passesFilter cfg healthData =
     (case hd_npcRef healthData of
        None \<Rightarrow> True
      | Some npcRef \<Rightarrow> shouldTrackNPC cfg npcRef (hd_name healthData) = Inr True)"

text \<open>
  Both registries are maps (one entry per id), and no id is in both of them.
\<close>

definition wf_state :: "plugin_state \<Rightarrow> bool" where
  "wf_state s = (distinct (map fst (npcHealthMap s)) \<and> distinct (map fst (trackedNPCs s)))"

definition separate :: "plugin_state \<Rightarrow> bool" where
  "separate s = (fst ` set (npcHealthMap s) \<inter> fst ` set (trackedNPCs s) = {})"

text \<open>Successive calls of \<open>updateTimers\<close> and everything they notified.\<close>

fun timerTicks ::
  "config \<Rightarrow> int list \<Rightarrow> timer_map \<Rightarrow> timer_map \<times> (npc_id \<times> notification) list" where
  "timerTicks cfg [] tracked = (tracked, [])"
| "timerTicks cfg (now # nows) tracked =
     (let (tracked1, notes1) = updateTimers cfg now tracked;
          (tracked2, notes2) = timerTicks cfg nows tracked1
      in (tracked2, notes1 @ notes2))"

text \<open>
  The two kinds of notification, how many of a kind the entry with key \<open>k\<close> emitted,
  and how many flag changes a registry still has in store for \<open>k\<close>.
\<close>

fun isSpawnedNote :: "notification \<Rightarrow> bool" where
  "isSpawnedNote (HasSpawned n) = True"
| "isSpawnedNote (SpawningIn n r) = False"

fun isAlertNote :: "notification \<Rightarrow> bool" where
  "isAlertNote (HasSpawned n) = False"
| "isAlertNote (SpawningIn n r) = True"

definition countNotes ::
  "(notification \<Rightarrow> bool) \<Rightarrow> npc_id \<Rightarrow> (npc_id \<times> notification) list \<Rightarrow> nat" where
  "countNotes P k notes = length (filter (\<lambda>(i, n). i = k \<and> P n) notes)"

definition spawnPending :: "timer_map \<Rightarrow> npc_id \<Rightarrow> nat" where
  "spawnPending tracked k =
     (case map_of tracked k of None \<Rightarrow> 0 | Some t \<Rightarrow> if t_spawned t then 0 else 1)"

definition alertPending :: "timer_map \<Rightarrow> npc_id \<Rightarrow> nat" where
  "alertPending tracked k =
     (case map_of tracked k of None \<Rightarrow> 0 | Some t \<Rightarrow> if t_alerted t then 0 else 1)"


section \<open>Example inputs\<close>

definition mk_npc :: "string \<Rightarrow> int option \<Rightarrow> int option \<Rightarrow> int \<Rightarrow> npc" where
  "mk_npc nm cur lvl clevel =
     \<lparr> n_def = Some \<lparr> d_name = Some nm, d_nameCapitalized = None \<rparr>,
       n_hitpoints = Some \<lparr> h_currentLevel = cur, h_level = lvl \<rparr>,
       n_Hitpoints = None,
       n_combat = Some \<lparr> c_level = Some clevel \<rparr>,
       n_currentGamePosition = Some \<lparr> g_x = Some 10, g_z = Some 20 \<rparr>,
       n_lastGamePosition = None,
       n_currentMapLevel = Some 1 \<rparr>"

definition snapshot :: "(npc_id \<times> npc option) list \<Rightarrow> entity_manager option" where
  "snapshot npcs = Some \<lparr> em_npcs = Some npcs \<rparr>"

definition mk_timer :: "npc_id \<Rightarrow> string \<Rightarrow> int \<Rightarrow> bool \<Rightarrow> bool \<Rightarrow> timer" where
  "mk_timer npcId nm ts alerted spawned =
     \<lparr> t_id = npcId, t_name = Some nm, t_position = \<lparr> p_x = 10, p_y = 20 \<rparr>, t_level = 1,
       t_spawnTimestamp = Num ts, t_respawnTime = Seconds 120,
       t_alerted = alerted, t_spawned = spawned \<rparr>"

text \<open>
  A dragon with 10 of 10 hitpoints; the same dragon with \<open>_currentLevel = 0\<close> and no
  \<open>_level\<close>, for which \<open>currentHP\<close> is 0; and the plugin after it has seen NPC 7 as
  the first, and then as the second.
\<close>

definition dragon_alive :: npc where
  "dragon_alive = mk_npc ''Fire Dragon'' (Some 10) (Some 10) 50"

definition dragon_dead :: npc where
  "dragon_dead = mk_npc ''Fire Dragon'' (Some 0) None 50"

definition dragon_alive_state :: plugin_state where
  "dragon_alive_state =
     monitorTicks default_config [(0, snapshot [(7, Some dragon_alive)])] init_state"

definition dragon_dead_state :: plugin_state where
  "dragon_dead_state =
     monitorTicks default_config
       [(0, snapshot [(7, Some dragon_alive)]), (500, snapshot [(7, Some dragon_dead)])]
       init_state"

text \<open>The plugin after the dragon, seen alive and then at zero health, is gone.\<close>

definition dragon_timer_state :: plugin_state where
  "dragon_timer_state =
     monitorTicks default_config
       [(0, snapshot [(7, Some dragon_alive)]), (500, snapshot [(7, Some dragon_dead)]),
        (1000, snapshot [])]
       init_state"


section \<open>Tree Cutter Bot: the nearest world entity\<close>

text \<open>
  \<open>String.prototype.trim\<close> on ASCII strings: tab, line feed, vertical tab, form feed,
  carriage return and space are stripped from both ends.
\<close>

definition isWhiteSpace :: "char \<Rightarrow> bool" where
  "isWhiteSpace c = (c \<in> set [CHR 0x09, CHR 0x0A, CHR 0x0B, CHR 0x0C, CHR 0x0D, CHR '' ''])"

definition trim :: "string \<Rightarrow> string" where
  "trim s = rev (dropWhile isWhiteSpace (rev (dropWhile isWhiteSpace s)))"

text \<open>
  Coordinates and distances are IEEE doubles in the plugin; they are modelled as real
  numbers, so rounding, \<open>NaN\<close> and infinities are outside the model (the
  initial \<open>bestDist = Infinity\<close> is \<open>None\<close>). Nothing proved below uses more of
  the distance than its linear order.

  A Babylon vector with the fields \<open>x\<close>, \<open>_x\<close>, \<open>z\<close>, \<open>_z\<close>, \<open>y\<close>, \<open>_y\<close>;
  a mesh; \<open>_appearance._bjsMeshes\<close>; a world entity with \<open>_name\<close> and
  \<open>_appearance\<close>; a game position with \<open>_x\<close>, \<open>X\<close>, \<open>x\<close>, \<open>_z\<close>, \<open>Z\<close>,
  \<open>z\<close>; the player with \<open>_currentGamePosition\<close>, \<open>CurrentGamePosition\<close>,
  \<open>_lastGamePosition\<close>.
\<close>

record vector3 =
  v_x :: "real option"
  v_x' :: "real option"
  v_z :: "real option"
  v_z' :: "real option"
  v_y :: "real option"
  v_y' :: "real option"

record mesh =
  absolutePosition :: "vector3 option"

record appearance =
  bjsMeshes :: "mesh option list option"

record world_entity =
  w_name :: "string option"
  w_appearance :: "appearance option"

record player_position =
  pp_x' :: "real option"
  pp_X :: "real option"
  pp_x :: "real option"
  pp_z' :: "real option"
  pp_Z :: "real option"
  pp_z :: "real option"

record player =
  pl_currentGamePosition' :: "player_position option"
  pl_CurrentGamePosition :: "player_position option"
  pl_lastGamePosition' :: "player_position option"

record world_position =
  wp_x :: real
  wp_z :: real

text \<open>\<open>v ?? 0\<close>.\<close>

definition or_zero :: "real option \<Rightarrow> real" where
  "or_zero v = (case v of None \<Rightarrow> 0 | Some r \<Rightarrow> r)"

definition getPlayerWorldPosition :: "player option \<Rightarrow> world_position option" where
  "getPlayerWorldPosition p =
     (case or_else (opt_field p pl_currentGamePosition')
             (or_else (opt_field p pl_CurrentGamePosition) (opt_field p pl_lastGamePosition')) of
        None \<Rightarrow> None
      | Some pos \<Rightarrow>
          Some \<lparr> wp_x = or_zero (or_else (pp_x' pos) (or_else (pp_X pos) (pp_x pos))),
                 wp_z = or_zero (or_else (pp_z' pos) (or_else (pp_Z pos) (pp_z pos))) \<rparr>)"

text \<open>\<open>_bjsMeshes?.[0]\<close>.\<close>

definition firstMesh :: "mesh option list option \<Rightarrow> mesh option" where
  "firstMesh ms = (case ms of None \<Rightarrow> None | Some [] \<Rightarrow> None | Some (m # rest) \<Rightarrow> m)"

definition getEntityWorldPosition :: "world_entity \<Rightarrow> world_position option" where
  "getEntityWorldPosition e =
     (case opt_field (firstMesh (opt_field (w_appearance e) bjsMeshes)) absolutePosition of
        None \<Rightarrow> None
      | Some p \<Rightarrow>
          Some \<lparr> wp_x = or_zero (or_else (v_x p) (v_x' p)),
                 wp_z = or_zero (or_else (v_z p) (v_z' p)) \<rparr>)"

definition distanceXZ :: "world_position \<Rightarrow> world_position \<Rightarrow> real" where
  "distanceXZ a b =
     (let dx = wp_x a - wp_x b; dz = wp_z a - wp_z b in sqrt (dx * dx + dz * dz))"

text \<open>
  The tests of one loop iteration up to the distance test: \<open>None\<close> when the
  iteration ends in \<open>continue\<close>, the distance \<open>d\<close> when it reaches the comparison
  with \<open>bestDist\<close>. The include string and the excludes are the normalised ones.
\<close>

definition candidateDistance ::
  "string \<Rightarrow> string list \<Rightarrow> world_position \<Rightarrow> real \<Rightarrow> world_entity option \<Rightarrow> real option" where
  "candidateDistance incl excludes playerPos maxTargetDistance entity =
     (case entity of
        None \<Rightarrow> None
      | Some e \<Rightarrow>
          (case w_name e of
             None \<Rightarrow> None
           | Some nm \<Rightarrow>
               if nm = [] then None
               else if incl \<noteq> [] \<and> \<not> str_includes (toLowerCase nm) incl then None
               else if list_ex (\<lambda>ex. ex \<noteq> [] \<and> str_includes (toLowerCase nm) ex) excludes
               then None
               else
                 (case getEntityWorldPosition e of
                    None \<Rightarrow> None
                  | Some entPos \<Rightarrow>
                      (let d = distanceXZ playerPos entPos
                       in if d > maxTargetDistance then None else Some d))))"

fun considerEntity ::
  "string \<Rightarrow> string list \<Rightarrow> world_position \<Rightarrow> real \<Rightarrow> nat \<times> world_entity option \<Rightarrow>
   world_entity option \<times> real option \<Rightarrow> world_entity option \<times> real option" where
  "considerEntity incl excludes playerPos maxTargetDistance (key, entity) (best, bestDist) =
     (case candidateDistance incl excludes playerPos maxTargetDistance entity of
        None \<Rightarrow> (best, bestDist)
      | Some d \<Rightarrow>
          if (case bestDist of None \<Rightarrow> True | Some b \<Rightarrow> d < b) then (entity, Some d)
          else (best, bestDist))"

text \<open>
  \<open>String(nameIncludes || '').toLowerCase().trim()\<close> and
  \<open>(nameExcludes || []).map(s => String(s).toLowerCase())\<close>.
\<close>

definition includeOf :: "string option \<Rightarrow> string" where
  "includeOf nameIncludes = trim (toLowerCase (case nameIncludes of None \<Rightarrow> [] | Some s \<Rightarrow> s))"

definition excludesOf :: "string list option \<Rightarrow> string list" where
  "excludesOf nameExcludes = map toLowerCase (case nameExcludes of None \<Rightarrow> [] | Some xs \<Rightarrow> xs)"

text \<open>
  \<open>worldEntities\<close> is \<open>gameHooks?.WorldEntityManager?.Instance?.WorldEntities\<close> and
  \<open>maxTargetDistance\<close> is the value of the setting of that name.
\<close>

definition findNearestWorldEntityByName ::
  "(nat \<times> world_entity option) list option \<Rightarrow> real \<Rightarrow> string option \<Rightarrow> string list option \<Rightarrow>
   player option \<Rightarrow> world_entity option" where
  "findNearestWorldEntityByName worldEntities maxTargetDistance nameIncludes nameExcludes p =
     (case worldEntities of
        None \<Rightarrow> None
      | Some entities \<Rightarrow>
          (let incl = includeOf nameIncludes;
               excludes = excludesOf nameExcludes
           in case getPlayerWorldPosition p of
                None \<Rightarrow> None
              | Some playerPos \<Rightarrow>
                  fst (fold (considerEntity incl excludes playerPos maxTargetDistance) entities
                         (None, None))))"

definition mk_entity :: "string \<Rightarrow> real \<Rightarrow> real \<Rightarrow> world_entity" where
  "mk_entity nm x z =
     \<lparr> w_name = Some nm,
       w_appearance = Some \<lparr> bjsMeshes = Some [Some \<lparr> absolutePosition =
         Some \<lparr> v_x = Some x, v_x' = None, v_z = Some z, v_z' = None, v_y = Some 0, v_y' = None \<rparr> \<rparr>] \<rparr> \<rparr>"

definition mk_player :: "real \<Rightarrow> real \<Rightarrow> player" where
  "mk_player x z =
     \<lparr> pl_currentGamePosition' = Some \<lparr> pp_x' = Some x, pp_X = None, pp_x = None,
                                          pp_z' = Some z, pp_Z = None, pp_z = None \<rparr>,
       pl_CurrentGamePosition = None, pl_lastGamePosition' = None \<rparr>"


text \<open>
  The claim's words: the distance of an entity with a resolvable position, and what
  it takes to qualify; and the invariant of the loop.
\<close>

definition entityDistance :: "world_position \<Rightarrow> world_entity \<Rightarrow> real option" where
  "entityDistance playerPos e = map_option (distanceXZ playerPos) (getEntityWorldPosition e)"

definition qualifies ::
  "string \<Rightarrow> string list \<Rightarrow> world_position \<Rightarrow> real \<Rightarrow> world_entity \<Rightarrow> bool" where
  "qualifies incl excludes playerPos maxTargetDistance e =
     (\<exists>nm d. w_name e = Some nm \<and> nm \<noteq> [] \<and>
        str_includes (toLowerCase nm) incl \<and>
        (\<forall>ex \<in> set excludes. ex \<noteq> [] \<longrightarrow> \<not> str_includes (toLowerCase nm) ex) \<and>
        entityDistance playerPos e = Some d \<and> d \<le> maxTargetDistance)"

definition nearestSoFar ::
  "string \<Rightarrow> string list \<Rightarrow> world_position \<Rightarrow> real \<Rightarrow> (nat \<times> world_entity option) set \<Rightarrow>
   world_entity option \<times> real option \<Rightarrow> bool" where
  "nearestSoFar incl excludes playerPos maxD seen acc =
     (case snd acc of
        None \<Rightarrow> fst acc = None \<and>
                 (\<forall>(k, e) \<in> seen. candidateDistance incl excludes playerPos maxD e = None)
      | Some d \<Rightarrow>
          (\<exists>e. fst acc = Some e \<and> (\<exists>k. (k, Some e) \<in> seen) \<and>
                candidateDistance incl excludes playerPos maxD (Some e) = Some d) \<and>
          (\<forall>(k, e') \<in> seen. \<forall>d'. candidateDistance incl excludes playerPos maxD e' = Some d'
               \<longrightarrow> d \<le> d'))"


section \<open>Facts about strings and maps\<close>

lemma startsWith_iff: "startsWith s p \<longleftrightarrow> (\<exists>post. s = p @ post)"
  by (induction s p rule: startsWith.induct) auto

lemma str_includes_iff: "str_includes s sub \<longleftrightarrow> (\<exists>pre post. s = pre @ sub @ post)"
proof (induction s)
  case Nil
  then show ?case by auto
next
  case (Cons c cs)
  show ?case
  proof
    assume "str_includes (c # cs) sub"
    then consider "startsWith (c # cs) sub" | "str_includes cs sub" by auto
    then show "\<exists>pre post. c # cs = pre @ sub @ post"
    proof cases
      case 1
      then obtain post where "c # cs = sub @ post" by (auto simp: startsWith_iff)
      then have "c # cs = [] @ sub @ post" by simp
      then show ?thesis by blast
    next
      case 2
      then obtain pre post where "cs = pre @ sub @ post" using Cons.IH by auto
      then have "c # cs = (c # pre) @ sub @ post" by simp
      then show ?thesis by blast
    qed
  next
    assume "\<exists>pre post. c # cs = pre @ sub @ post"
    then obtain pre post where e: "c # cs = pre @ sub @ post" by auto
    show "str_includes (c # cs) sub"
    proof (cases pre)
      case Nil
      then have "startsWith (c # cs) sub" using e by (auto simp: startsWith_iff)
      then show ?thesis by simp
    next
      case (Cons a pre')
      then have "cs = pre' @ sub @ post" using e by simp
      then have "str_includes cs sub" using Cons.IH by blast
      then show ?thesis by simp
    qed
  qed
qed

lemma isBlacklisted_iff:
  "isBlacklisted cfg nm \<longleftrightarrow>
     (\<exists>b \<in> set (blacklistedNames cfg). \<exists>pre post. toLowerCase nm = pre @ toLowerCase b @ post)"
  by (simp add: isBlacklisted_def list_ex_iff str_includes_iff)

lemma hasBossKeyword_iff:
  "hasBossKeyword cfg nm \<longleftrightarrow>
     (\<exists>k \<in> set (bossKeywords cfg). \<exists>pre post. toLowerCase nm = pre @ toLowerCase k @ post)"
  by (simp add: hasBossKeyword_def list_ex_iff str_includes_iff)


section \<open>The eligibility filter\<close>

text \<open>
  Claim C10. With the auto-track master switch off, \<open>shouldTrackNPC\<close> returns
  \<open>false\<close> for every NPC and every name (a missing name included: the switch is
  tested before the name is used), whatever the keywords, the blacklist and the
  combat level are.
\<close>

theorem shouldTrackNPC_switch_off:
  "\<not> autoTrackEnabled cfg \<Longrightarrow> shouldTrackNPC cfg n npcName = Inr False"
  by (simp add: shouldTrackNPC_def)

theorem shouldTrackNPC_switch_off_witness:
  "\<not> autoTrackEnabled (default_config\<lparr> autoTrackEnabled := False \<rparr>) \<and>
   hasBossKeyword (default_config\<lparr> autoTrackEnabled := False \<rparr>) ''Fire Dragon'' \<and>
   \<not> isBlacklisted (default_config\<lparr> autoTrackEnabled := False \<rparr>) ''Fire Dragon'' \<and>
   combatLevel (mk_npc ''Fire Dragon'' (Some 10) (Some 10) 99) \<ge>
     minNPCLevel (default_config\<lparr> autoTrackEnabled := False \<rparr>) \<and>
   shouldTrackNPC (default_config\<lparr> autoTrackEnabled := False \<rparr>)
     (mk_npc ''Fire Dragon'' (Some 10) (Some 10) 99) (Some ''Fire Dragon'') = Inr False"
proof -
  have a: "\<not> autoTrackEnabled (default_config\<lparr> autoTrackEnabled := False \<rparr>)" by simp
  have b: "hasBossKeyword (default_config\<lparr> autoTrackEnabled := False \<rparr>) ''Fire Dragon''"
    by code_simp
  have c: "\<not> isBlacklisted (default_config\<lparr> autoTrackEnabled := False \<rparr>) ''Fire Dragon''"
    by code_simp
  have d: "combatLevel (mk_npc ''Fire Dragon'' (Some 10) (Some 10) 99) \<ge>
     minNPCLevel (default_config\<lparr> autoTrackEnabled := False \<rparr>)"
    by code_simp
  show ?thesis
    using a b c d
      shouldTrackNPC_switch_off [OF a, of "mk_npc ''Fire Dragon'' (Some 10) (Some 10) 99"
        "Some ''Fire Dragon''"]
    by simp
qed

text \<open>
  Claim C6, as amended. A name whose lowercase form contains a blacklisted
  substring is rejected, whatever else holds. With the auto-track master switch on:
  a name that is not blacklisted is accepted, without looking at the level, when boss
  tracking is on and its lowercase form contains a boss keyword; otherwise it is
  accepted exactly when the combat level (0 when missing) is at least the configured
  minimum. The claim does not mention the switch, which is tested first.
\<close>

theorem shouldTrackNPC_precedence:
  "((\<exists>b \<in> set (blacklistedNames cfg). \<exists>pre post. toLowerCase nm = pre @ toLowerCase b @ post)
      \<longrightarrow> shouldTrackNPC cfg n (Some nm) = Inr False) \<and>
   (autoTrackEnabled cfg \<and>
    \<not> (\<exists>b \<in> set (blacklistedNames cfg). \<exists>pre post. toLowerCase nm = pre @ toLowerCase b @ post) \<and>
    trackBosses cfg \<and>
    (\<exists>k \<in> set (bossKeywords cfg). \<exists>pre post. toLowerCase nm = pre @ toLowerCase k @ post)
      \<longrightarrow> shouldTrackNPC cfg n (Some nm) = Inr True) \<and>
   (autoTrackEnabled cfg \<and>
    \<not> (\<exists>b \<in> set (blacklistedNames cfg). \<exists>pre post. toLowerCase nm = pre @ toLowerCase b @ post) \<and>
    \<not> (trackBosses cfg \<and>
       (\<exists>k \<in> set (bossKeywords cfg). \<exists>pre post. toLowerCase nm = pre @ toLowerCase k @ post))
      \<longrightarrow> shouldTrackNPC cfg n (Some nm) = Inr (combatLevel n \<ge> minNPCLevel cfg))"
  unfolding isBlacklisted_iff [symmetric] hasBossKeyword_iff [symmetric]
  by (simp add: shouldTrackNPC_def)

theorem shouldTrackNPC_precedence_witness:
  "shouldTrackNPC default_config (mk_npc ''Cave Chicken Knight'' (Some 10) (Some 10) 99)
     (Some ''Cave Chicken Knight'') = Inr False \<and>
   shouldTrackNPC default_config (mk_npc ''Fire Dragon'' (Some 10) (Some 10) 1)
     (Some ''Fire Dragon'') = Inr True \<and>
   shouldTrackNPC default_config (mk_npc ''Wizard'' (Some 10) (Some 10) 30)
     (Some ''Wizard'') = Inr True \<and>
   shouldTrackNPC default_config (mk_npc ''Wizard'' (Some 10) (Some 10) 29)
     (Some ''Wizard'') = Inr False"
proof -
  have sw: "autoTrackEnabled default_config" "trackBosses default_config"
    by (simp_all add: default_config_def)
  have b1: "isBlacklisted default_config ''Cave Chicken Knight''" by code_simp
  have b2: "\<not> isBlacklisted default_config ''Fire Dragon''" by code_simp
  have b3: "\<not> isBlacklisted default_config ''Wizard''" by code_simp
  have k2: "hasBossKeyword default_config ''Fire Dragon''" by code_simp
  have k3: "\<not> hasBossKeyword default_config ''Wizard''" by code_simp
  have l3: "combatLevel (mk_npc ''Wizard'' (Some 10) (Some 10) 30) \<ge> minNPCLevel default_config"
    by code_simp
  have l4: "\<not> combatLevel (mk_npc ''Wizard'' (Some 10) (Some 10) 29) \<ge> minNPCLevel default_config"
    by code_simp
  show ?thesis
    using sw b1 b2 b3 k2 k3 l3 l4
      shouldTrackNPC_precedence [of default_config "''Cave Chicken Knight''"
        "mk_npc ''Cave Chicken Knight'' (Some 10) (Some 10) 99"]
      shouldTrackNPC_precedence [of default_config "''Fire Dragon''"
        "mk_npc ''Fire Dragon'' (Some 10) (Some 10) 1"]
      shouldTrackNPC_precedence [of default_config "''Wizard''"
        "mk_npc ''Wizard'' (Some 10) (Some 10) 30"]
      shouldTrackNPC_precedence [of default_config "''Wizard''"
        "mk_npc ''Wizard'' (Some 10) (Some 10) 29"]
    unfolding isBlacklisted_iff [symmetric] hasBossKeyword_iff [symmetric]
    by simp
qed

text \<open>
  Claim C6 as stated fails with the master switch off: ``Fire Dragon'' is not
  blacklisted and contains a boss keyword while boss tracking is on, and it is
  rejected.
\<close>

theorem shouldTrackNPC_precedence_counterexample:
  "\<not> isBlacklisted (default_config\<lparr> autoTrackEnabled := False \<rparr>) ''Fire Dragon'' \<and>
   trackBosses (default_config\<lparr> autoTrackEnabled := False \<rparr>) \<and>
   hasBossKeyword (default_config\<lparr> autoTrackEnabled := False \<rparr>) ''Fire Dragon'' \<and>
   shouldTrackNPC (default_config\<lparr> autoTrackEnabled := False \<rparr>)
     (mk_npc ''Fire Dragon'' (Some 10) (Some 10) 99) (Some ''Fire Dragon'') = Inr False"
  by code_simp


section \<open>Timer creation\<close>

text \<open>
  For a name that \<open>Object.prototype\<close> does not define, the duration under the
  constructor's configuration is the table's value for exactly that name, and 120
  otherwise; the spawn time is the clock reading plus that many seconds.
\<close>

lemma respawnTimeFor_default_config:
  "nm \<notin> set objectPrototypeNames \<Longrightarrow>
   respawnTimeFor default_config (Some nm) =
     Seconds (case map_of (customRespawnTimes default_config) nm of None \<Rightarrow> 120 | Some v \<Rightarrow> v)"
  by (simp add: respawnTimeFor_def propertyKey_def ownProperty_def default_config_def)

lemma newTimer_default_config:
  "nm \<notin> set objectPrototypeNames \<Longrightarrow>
   t_respawnTime (newTimer default_config now npcId (Some nm) pos lvl) =
     Seconds (case map_of (customRespawnTimes default_config) nm of None \<Rightarrow> 120 | Some v \<Rightarrow> v) \<and>
   t_spawnTimestamp (newTimer default_config now npcId (Some nm) pos lvl) =
     Num (now + (case map_of (customRespawnTimes default_config) nm of None \<Rightarrow> 120 | Some v \<Rightarrow> v) * 1000)"
  by (simp add: newTimer_def Let_def respawnTimeFor_default_config)

text \<open>
  Claim C5 fails for an entity named like a member of \<open>Object.prototype\<close>. The table
  has no entry ``constructor'', so the claim asks for 120 seconds and a spawn time of
  \<open>now + 120000\<close>; \<open>trackNPCDeath\<close> stores the inherited member as the duration and
  \<open>NaN\<close> as the spawn time.
\<close>

theorem trackNPCDeath_inherited_name:
  "ownProperty (customRespawnTimes default_config) ''constructor'' = None \<and>
   trackNPCDeath default_config 1000 7 (Some ''constructor'') \<lparr> p_x = 0, p_y = 0 \<rparr> 1 [] =
     [(7, \<lparr> t_id = 7, t_name = Some ''constructor'', t_position = \<lparr> p_x = 0, p_y = 0 \<rparr>,
            t_level = 1, t_spawnTimestamp = NaN, t_respawnTime = Inherited ''constructor'',
            t_alerted = False, t_spawned = False \<rparr>)]"
  by code_simp


section \<open>The countdown\<close>

lemma map_of_flagPass:
  "map_of (flagPass cfg now tracked) k =
     map_option (\<lambda>t. fst (updateTimer cfg now t)) (map_of tracked k)"
  by (induction tracked) (auto simp: flagPass_def)

lemma keys_flagPass: "map fst (flagPass cfg now tracked) = map fst tracked"
  by (induction tracked) (auto simp: flagPass_def)

lemma map_of_sweep:
  "distinct (map fst tracked) \<Longrightarrow>
   map_of (sweep now tracked) k =
     (case map_of tracked k of None \<Rightarrow> None | Some t \<Rightarrow> if expired now t then None else Some t)"
proof (induction tracked)
  case Nil
  then show ?case by (simp add: sweep_def)
next
  case (Cons p ps)
  obtain k' t' where p: "p = (k', t')" by (cases p)
  have ih: "map_of (sweep now ps) k =
     (case map_of ps k of None \<Rightarrow> None | Some t \<Rightarrow> if expired now t then None else Some t)"
    using Cons by simp
  have notin: "k' \<notin> fst ` set ps" using Cons.prems p by auto
  show ?case
  proof (cases "k' = k")
    case True
    then have "map_of ps k = None" using notin by (simp add: map_of_eq_None_iff)
    then have "map_of (sweep now ps) k = None" using ih by simp
    then show ?thesis using True p by (simp add: sweep_def)
  next
    case False
    then show ?thesis using ih p by (simp add: sweep_def)
  qed
qed

lemma updateTimer_timestamp:
  "t_spawnTimestamp (fst (updateTimer cfg now t)) = t_spawnTimestamp t"
  by (auto simp: updateTimer_def split: js_number.splits)

lemma updateTimer_spawned_mono: "t_spawned t \<Longrightarrow> t_spawned (fst (updateTimer cfg now t))"
  by (auto simp: updateTimer_def split: js_number.splits)

lemma updateTimer_alerted_mono: "t_alerted t \<Longrightarrow> t_alerted (fst (updateTimer cfg now t))"
  by (auto simp: updateTimer_def split: js_number.splits)

text \<open>
  Claim C4, as amended. The sweep removes a timer exactly when its spawned flag is
  set and strictly more than 30000 ms have passed since its spawn time; so a tick of
  \<open>updateTimers\<close> removes a timer whose flag was already set exactly when
  \<open>now - spawnTimestamp > 30000\<close>, and not at 30000 ms; a timer whose flag is not set
  when the sweep runs is kept.
\<close>

theorem sweep_after_30s:
  assumes "distinct (map fst tracked)" and "map_of tracked k = Some t"
  shows "(map_has (sweep now tracked) k \<longleftrightarrow>
            \<not> (t_spawned t \<and> (\<exists>ts. t_spawnTimestamp t = Num ts \<and> now - ts > 30000))) \<and>
         (t_spawned t \<longrightarrow>
            (map_has (fst (updateTimers cfg now tracked)) k \<longleftrightarrow>
               \<not> (\<exists>ts. t_spawnTimestamp t = Num ts \<and> now - ts > 30000)))"
proof -
  have ex: "\<And>u. expired now u \<longleftrightarrow>
      (t_spawned u \<and> (\<exists>ts. t_spawnTimestamp u = Num ts \<and> now - ts > 30000))"
    by (auto simp: expired_def split: js_number.splits)
  have a: "map_has (sweep now tracked) k \<longleftrightarrow> \<not> expired now t"
    using assms by (simp add: map_has_def map_of_sweep)
  have d: "distinct (map fst (flagPass cfg now tracked))"
    using assms(1) by (simp add: keys_flagPass)
  have b: "map_has (fst (updateTimers cfg now tracked)) k \<longleftrightarrow>
      \<not> expired now (fst (updateTimer cfg now t))"
    using assms(2) by (simp add: updateTimers_def map_has_def map_of_sweep [OF d] map_of_flagPass)
  show ?thesis
    using a b by (auto simp: ex updateTimer_timestamp updateTimer_spawned_mono)
qed

theorem sweep_after_30s_witness:
  "distinct (map fst [(7::npc_id, mk_timer 7 ''Fire Dragon'' 0 True True)]) \<and>
   map_of [(7, mk_timer 7 ''Fire Dragon'' 0 True True)] 7 =
     Some (mk_timer 7 ''Fire Dragon'' 0 True True) \<and>
   t_spawned (mk_timer 7 ''Fire Dragon'' 0 True True) \<and>
   \<not> map_has (fst (updateTimers default_config 30001 [(7, mk_timer 7 ''Fire Dragon'' 0 True True)])) 7 \<and>
   map_has (fst (updateTimers default_config 30000 [(7, mk_timer 7 ''Fire Dragon'' 0 True True)])) 7 \<and>
   map_has (sweep 30001 [(7, mk_timer 7 ''Fire Dragon'' 0 True False)]) 7"
proof -
  have d: "distinct (map fst [(7::nat, mk_timer 7 ''Fire Dragon'' 0 True True)])"
    and d': "distinct (map fst [(7::nat, mk_timer 7 ''Fire Dragon'' 0 True False)])"
    by simp_all
  have m: "map_of [(7::nat, mk_timer 7 ''Fire Dragon'' 0 True True)] 7 =
      Some (mk_timer 7 ''Fire Dragon'' 0 True True)"
    and m': "map_of [(7::nat, mk_timer 7 ''Fire Dragon'' 0 True False)] 7 =
      Some (mk_timer 7 ''Fire Dragon'' 0 True False)"
    by simp_all
  show ?thesis
    using d m
      sweep_after_30s [OF d m, of 30001 default_config]
      sweep_after_30s [OF d m, of 30000 default_config]
      sweep_after_30s [OF d' m', of 30001 default_config]
    by (simp add: mk_timer_def)
qed

text \<open>
  Claim C4 as stated fails when exactly 30000 ms have passed: the spawned timer is
  still in the registry after the tick.
\<close>

theorem sweep_after_30s_counterexample:
  "t_spawned (mk_timer 7 ''Fire Dragon'' 0 True True) \<and>
   t_spawnTimestamp (mk_timer 7 ''Fire Dragon'' 0 True True) = Num 0 \<and>
   (30000::int) - 0 \<ge> 30000 \<and>
   map_has (fst (updateTimers default_config 30000 [(7, mk_timer 7 ''Fire Dragon'' 0 True True)])) 7"
  by code_simp


section \<open>A tick without the host registry\<close>

lemma despawnLoop_no_zero:
  "list_all (\<lambda>(k, h). hd_hp h \<noteq> 0) entries \<Longrightarrow> despawnLoop cfg now ids entries s = Completed s"
  by (induction entries) (auto simp: despawnEntry_def)

lemma monitorNPCHealth_empty_snapshot:
  "list_all (\<lambda>(k, h). hd_hp h \<noteq> 0) (npcHealthMap s) \<Longrightarrow>
   monitorNPCHealth cfg now (snapshot []) s = Completed s"
  by (simp add: monitorNPCHealth_def snapshot_def opt_field_def observedHealth_def
      observeNPCs_def despawnLoop_no_zero)

text \<open>
  Claim C7, as amended. When \<open>this.entityManager\<close> or its \<open>_npcs\<close> is missing,
  \<open>monitorNPCHealth\<close> returns at once: no exception, and the health map and the timer
  registry are unchanged; \<open>updateTimers\<close> then runs as on any tick. This is the tick
  over an empty entity set whenever no health record has cached health zero (such a
  record would be despawn-confirmed by an empty snapshot, and is left alone here).
\<close>

theorem monitorNPCHealth_registry_missing:
  assumes "opt_field em em_npcs = None"
  shows "monitorNPCHealth cfg now em s = Completed s \<and>
         GameLoop_update cfg True now later em s =
           (Completed (s\<lparr> trackedNPCs := fst (updateTimers cfg later (trackedNPCs s)) \<rparr>),
            snd (updateTimers cfg later (trackedNPCs s))) \<and>
         (list_all (\<lambda>(k, h). hd_hp h \<noteq> 0) (npcHealthMap s) \<longrightarrow>
            monitorNPCHealth cfg now em s = monitorNPCHealth cfg now (snapshot []) s)"
proof -
  have a: "monitorNPCHealth cfg now em s = Completed s"
    using assms by (simp add: monitorNPCHealth_def)
  have b: "GameLoop_update cfg True now later em s =
           (Completed (s\<lparr> trackedNPCs := fst (updateTimers cfg later (trackedNPCs s)) \<rparr>),
            snd (updateTimers cfg later (trackedNPCs s)))"
    by (simp add: GameLoop_update_def a split: prod.splits)
  show ?thesis
    using a b by (simp add: monitorNPCHealth_empty_snapshot)
qed

theorem monitorNPCHealth_registry_missing_witness:
  "opt_field (Some \<lparr> em_npcs = None \<rparr>) em_npcs = None \<and>
   opt_field (None :: entity_manager option) em_npcs = None \<and>
   monitorNPCHealth default_config 1000 None
     dragon_alive_state =
   Completed
     dragon_alive_state \<and>
   monitorNPCHealth default_config 1000 (Some \<lparr> em_npcs = None \<rparr>)
     dragon_alive_state =
   monitorNPCHealth default_config 1000 (snapshot [])
     dragon_alive_state"
proof -
  have a: "opt_field (Some \<lparr> em_npcs = None \<rparr>) em_npcs = None"
    and b: "opt_field (None :: entity_manager option) em_npcs = None"
    by (simp_all add: opt_field_def)
  have c: "list_all (\<lambda>(k, h). hd_hp h \<noteq> 0)
     (npcHealthMap dragon_alive_state)"
    by code_simp
  show ?thesis
    using a b c
      monitorNPCHealth_registry_missing [OF b, of default_config 1000
        dragon_alive_state
        2000]
      monitorNPCHealth_registry_missing [OF a, of default_config 1000
        dragon_alive_state
        2000]
    by blast
qed

text \<open>
  Claim C7 as stated fails once a death has been seen: the dragon is alive on the
  first tick and at zero health on the second; on the third tick a missing registry
  leaves the state as it is, with no timer, while an empty snapshot creates the timer
  and removes the health record.
\<close>

theorem monitorNPCHealth_registry_missing_counterexample:
  "monitorNPCHealth default_config 1000 None
     dragon_dead_state
   \<noteq> monitorNPCHealth default_config 1000 (snapshot [])
     dragon_dead_state \<and>
   \<not> map_has (trackedNPCs (state_of (monitorNPCHealth default_config 1000 None
     dragon_dead_state))) 7 \<and>
   map_has (trackedNPCs (state_of (monitorNPCHealth default_config 1000 (snapshot [])
     dragon_dead_state))) 7"
  by code_simp


section \<open>One-shot alerts\<close>

lemma countNotes_append: "countNotes P k (xs @ ys) = countNotes P k xs + countNotes P k ys"
  by (simp add: countNotes_def)

lemma countNotes_Pair: "countNotes P k (map (Pair k') ns) = (if k' = k then length (filter P ns) else 0)"
  by (induction ns) (auto simp: countNotes_def)

lemma countNotes_notifications:
  "distinct (map fst tracked) \<Longrightarrow>
   countNotes P k (notifications cfg now tracked) =
     (case map_of tracked k of None \<Rightarrow> 0 | Some t \<Rightarrow> length (filter P (snd (updateTimer cfg now t))))"
proof (induction tracked)
  case Nil
  then show ?case by (simp add: notifications_def countNotes_def)
next
  case (Cons p ps)
  obtain k' t' where p: "p = (k', t')" by (cases p)
  have split: "\<And>a b. notifications cfg now ((a, b) # ps) =
      map (Pair a) (snd (updateTimer cfg now b)) @ notifications cfg now ps"
    by (simp add: notifications_def)
  have ih: "countNotes P k (notifications cfg now ps) =
     (case map_of ps k of None \<Rightarrow> 0 | Some t \<Rightarrow> length (filter P (snd (updateTimer cfg now t))))"
    using Cons by simp
  show ?case
  proof (cases "k' = k")
    case True
    then have "map_of ps k = None" using Cons.prems p by (auto simp: map_of_eq_None_iff)
    then show ?thesis using True p ih by (simp add: split countNotes_append countNotes_Pair)
  next
    case False
    then show ?thesis using p ih by (simp add: split countNotes_append countNotes_Pair)
  qed
qed

lemma updateTimer_spawn_note:
  "length (filter isSpawnedNote (snd (updateTimer cfg now t))) =
     (if \<not> t_spawned t \<and> t_spawned (fst (updateTimer cfg now t)) then 1 else 0)"
  by (auto simp: updateTimer_def split: js_number.splits)

lemma updateTimer_alert_note:
  "length (filter isAlertNote (snd (updateTimer cfg now t))) =
     (if \<not> t_alerted t \<and> t_alerted (fst (updateTimer cfg now t)) then 1 else 0)"
  by (auto simp: updateTimer_def split: js_number.splits)

lemma distinct_updateTimers:
  "distinct (map fst tracked) \<Longrightarrow> distinct (map fst (fst (updateTimers cfg now tracked)))"
  by (simp add: updateTimers_def sweep_def distinct_map_filter keys_flagPass)

lemma map_of_updateTimers:
  "distinct (map fst tracked) \<Longrightarrow>
   map_of (fst (updateTimers cfg now tracked)) k =
     (case map_of tracked k of
        None \<Rightarrow> None
      | Some t \<Rightarrow> if expired now (fst (updateTimer cfg now t)) then None
                  else Some (fst (updateTimer cfg now t)))"
  by (simp add: updateTimers_def map_of_sweep keys_flagPass map_of_flagPass split: option.splits)

lemma snd_updateTimers: "snd (updateTimers cfg now tracked) = notifications cfg now tracked"
  by (simp add: updateTimers_def)

lemma spawn_tick:
  assumes "distinct (map fst tracked)"
  shows "countNotes isSpawnedNote k (snd (updateTimers cfg now tracked)) +
           spawnPending (fst (updateTimers cfg now tracked)) k \<le> spawnPending tracked k"
  using assms
  by (auto simp: snd_updateTimers countNotes_notifications spawnPending_def
      map_of_updateTimers updateTimer_spawn_note updateTimer_spawned_mono split: option.splits)

lemma alert_tick:
  assumes "distinct (map fst tracked)"
  shows "countNotes isAlertNote k (snd (updateTimers cfg now tracked)) +
           alertPending (fst (updateTimers cfg now tracked)) k \<le> alertPending tracked k"
  using assms
  by (auto simp: snd_updateTimers countNotes_notifications alertPending_def
      map_of_updateTimers updateTimer_alert_note updateTimer_alerted_mono split: option.splits)

lemma timerTicks_Cons:
  "timerTicks cfg (now # nows) tracked =
     (fst (timerTicks cfg nows (fst (updateTimers cfg now tracked))),
      snd (updateTimers cfg now tracked) @ snd (timerTicks cfg nows (fst (updateTimers cfg now tracked))))"
  by (simp add: split_def Let_def)

lemma keys_updateTimers:
  "set (map fst (fst (updateTimers cfg now tracked))) \<subseteq> set (map fst tracked)"
  by (force simp: updateTimers_def sweep_def flagPass_def)

lemma keys_timerTicks:
  "set (map fst (fst (timerTicks cfg nows tracked))) \<subseteq> set (map fst tracked)"
proof (induction nows arbitrary: tracked)
  case Nil
  then show ?case by simp
next
  case (Cons now nows)
  show ?case
    using Cons.IH [of "fst (updateTimers cfg now tracked)"] keys_updateTimers [of cfg now tracked]
    by (simp add: timerTicks_Cons del: timerTicks.simps)
qed

lemma spawn_ticks:
  "distinct (map fst tracked) \<Longrightarrow>
   countNotes isSpawnedNote k (snd (timerTicks cfg nows tracked)) +
     spawnPending (fst (timerTicks cfg nows tracked)) k \<le> spawnPending tracked k"
proof (induction nows arbitrary: tracked)
  case Nil
  then show ?case by (simp add: countNotes_def)
next
  case (Cons now nows)
  have d: "distinct (map fst (fst (updateTimers cfg now tracked)))"
    using Cons.prems by (rule distinct_updateTimers)
  show ?case
    using Cons.IH [OF d] spawn_tick [OF Cons.prems, of k cfg now]
    by (simp add: timerTicks_Cons countNotes_append del: timerTicks.simps)
qed

lemma alert_ticks:
  "distinct (map fst tracked) \<Longrightarrow>
   countNotes isAlertNote k (snd (timerTicks cfg nows tracked)) +
     alertPending (fst (timerTicks cfg nows tracked)) k \<le> alertPending tracked k"
proof (induction nows arbitrary: tracked)
  case Nil
  then show ?case by (simp add: countNotes_def)
next
  case (Cons now nows)
  have d: "distinct (map fst (fst (updateTimers cfg now tracked)))"
    using Cons.prems by (rule distinct_updateTimers)
  show ?case
    using Cons.IH [OF d] alert_tick [OF Cons.prems, of k cfg now]
    by (simp add: timerTicks_Cons countNotes_append del: timerTicks.simps)
qed

lemma flags_ticks:
  "distinct (map fst tracked) \<Longrightarrow> map_of tracked k = Some t \<Longrightarrow>
   map_of (fst (timerTicks cfg nows tracked)) k = Some t' \<Longrightarrow>
   (t_spawned t \<longrightarrow> t_spawned t') \<and> (t_alerted t \<longrightarrow> t_alerted t')"
proof (induction nows arbitrary: tracked t)
  case Nil
  then show ?case by simp
next
  case (Cons now nows)
  let ?tr = "fst (updateTimers cfg now tracked)"
  have d: "distinct (map fst ?tr)" using Cons.prems(1) by (rule distinct_updateTimers)
  have later: "map_of (fst (timerTicks cfg nows ?tr)) k = Some t'"
    using Cons.prems(3) by (simp add: timerTicks_Cons del: timerTicks.simps)
  show ?case
  proof (cases "map_of ?tr k")
    case None
    have "map_of (fst (timerTicks cfg nows ?tr)) k = None"
      using None keys_timerTicks [of cfg nows ?tr] by (auto simp: map_of_eq_None_iff)
    then show ?thesis using later by simp
  next
    case (Some u)
    then have u: "u = fst (updateTimer cfg now t)"
      using Cons.prems(1,2) by (auto simp: map_of_updateTimers split: if_splits)
    show ?thesis
      using Cons.IH [OF d Some later] u
      by (auto simp: updateTimer_spawned_mono updateTimer_alerted_mono)
  qed
qed

lemma updateTimer_idem:
  "updateTimer cfg now (fst (updateTimer cfg now t)) = (fst (updateTimer cfg now t), [])"
  by (auto simp: updateTimer_def split: js_number.splits)

lemma updateTimers_idem:
  "updateTimers cfg now (fst (updateTimers cfg now tracked)) = (fst (updateTimers cfg now tracked), [])"
  by (induction tracked) (auto simp: updateTimers_def sweep_def flagPass_def notifications_def updateTimer_idem
       expired_def updateTimer_timestamp)

text \<open>
  Claim C3. Over any sequence of \<open>updateTimers\<close> ticks (whatever the clock
  readings, non-decreasing or not) and for every timer key \<open>k\<close>: at most one
  ``spawned'' and at most one ``spawning soon'' notification is emitted for the timer;
  a flag that is set stays set, so each flag goes from false to true at most once, and
  a timer whose flag is already set emits no further notification of that kind; in one
  tick a notification is emitted exactly when the flag changes; and a tick repeated at
  the same time changes nothing and notifies nothing.
\<close>

theorem timer_flags_once:
  assumes "distinct (map fst tracked)"
  shows "countNotes isSpawnedNote k (snd (timerTicks cfg nows tracked)) \<le> 1 \<and>
         countNotes isAlertNote k (snd (timerTicks cfg nows tracked)) \<le> 1 \<and>
         (\<forall>t. map_of tracked k = Some t \<longrightarrow>
            (t_spawned t \<longrightarrow> countNotes isSpawnedNote k (snd (timerTicks cfg nows tracked)) = 0) \<and>
            (t_alerted t \<longrightarrow> countNotes isAlertNote k (snd (timerTicks cfg nows tracked)) = 0) \<and>
            (\<forall>t'. map_of (fst (timerTicks cfg nows tracked)) k = Some t' \<longrightarrow>
               (t_spawned t \<longrightarrow> t_spawned t') \<and> (t_alerted t \<longrightarrow> t_alerted t')) \<and>
            countNotes isSpawnedNote k (snd (updateTimers cfg now tracked)) =
              (if \<not> t_spawned t \<and> t_spawned (fst (updateTimer cfg now t)) then 1 else 0) \<and>
            countNotes isAlertNote k (snd (updateTimers cfg now tracked)) =
              (if \<not> t_alerted t \<and> t_alerted (fst (updateTimer cfg now t)) then 1 else 0)) \<and>
         updateTimers cfg now (fst (updateTimers cfg now tracked)) =
           (fst (updateTimers cfg now tracked), [])"
proof -
  have sp: "countNotes isSpawnedNote k (snd (timerTicks cfg nows tracked)) \<le> spawnPending tracked k"
    using spawn_ticks [OF assms, of k cfg nows] by simp
  have al: "countNotes isAlertNote k (snd (timerTicks cfg nows tracked)) \<le> alertPending tracked k"
    using alert_ticks [OF assms, of k cfg nows] by simp
  have sp1: "spawnPending tracked k \<le> 1" and al1: "alertPending tracked k \<le> 1"
    by (simp_all add: spawnPending_def alertPending_def split: option.splits)
  have c1: "countNotes isSpawnedNote k (snd (timerTicks cfg nows tracked)) \<le> 1"
    using sp sp1 by simp
  have c2: "countNotes isAlertNote k (snd (timerTicks cfg nows tracked)) \<le> 1"
    using al al1 by simp
  have c3: "\<forall>t. map_of tracked k = Some t \<longrightarrow>
            (t_spawned t \<longrightarrow> countNotes isSpawnedNote k (snd (timerTicks cfg nows tracked)) = 0) \<and>
            (t_alerted t \<longrightarrow> countNotes isAlertNote k (snd (timerTicks cfg nows tracked)) = 0) \<and>
            (\<forall>t'. map_of (fst (timerTicks cfg nows tracked)) k = Some t' \<longrightarrow>
               (t_spawned t \<longrightarrow> t_spawned t') \<and> (t_alerted t \<longrightarrow> t_alerted t')) \<and>
            countNotes isSpawnedNote k (snd (updateTimers cfg now tracked)) =
              (if \<not> t_spawned t \<and> t_spawned (fst (updateTimer cfg now t)) then 1 else 0) \<and>
            countNotes isAlertNote k (snd (updateTimers cfg now tracked)) =
              (if \<not> t_alerted t \<and> t_alerted (fst (updateTimer cfg now t)) then 1 else 0)"
  proof (intro allI impI)
    fix t
    assume t: "map_of tracked k = Some t"
    have a: "t_spawned t \<longrightarrow> countNotes isSpawnedNote k (snd (timerTicks cfg nows tracked)) = 0"
      using sp t by (auto simp: spawnPending_def)
    have b: "t_alerted t \<longrightarrow> countNotes isAlertNote k (snd (timerTicks cfg nows tracked)) = 0"
      using al t by (auto simp: alertPending_def)
    have c: "\<forall>t'. map_of (fst (timerTicks cfg nows tracked)) k = Some t' \<longrightarrow>
               (t_spawned t \<longrightarrow> t_spawned t') \<and> (t_alerted t \<longrightarrow> t_alerted t')"
      using flags_ticks [OF assms t] by blast
    have d: "countNotes isSpawnedNote k (snd (updateTimers cfg now tracked)) =
              (if \<not> t_spawned t \<and> t_spawned (fst (updateTimer cfg now t)) then 1 else 0)"
      using assms t by (simp add: snd_updateTimers countNotes_notifications updateTimer_spawn_note)
    have e: "countNotes isAlertNote k (snd (updateTimers cfg now tracked)) =
              (if \<not> t_alerted t \<and> t_alerted (fst (updateTimer cfg now t)) then 1 else 0)"
      using assms t by (simp add: snd_updateTimers countNotes_notifications updateTimer_alert_note)
    show "(t_spawned t \<longrightarrow> countNotes isSpawnedNote k (snd (timerTicks cfg nows tracked)) = 0) \<and>
            (t_alerted t \<longrightarrow> countNotes isAlertNote k (snd (timerTicks cfg nows tracked)) = 0) \<and>
            (\<forall>t'. map_of (fst (timerTicks cfg nows tracked)) k = Some t' \<longrightarrow>
               (t_spawned t \<longrightarrow> t_spawned t') \<and> (t_alerted t \<longrightarrow> t_alerted t')) \<and>
            countNotes isSpawnedNote k (snd (updateTimers cfg now tracked)) =
              (if \<not> t_spawned t \<and> t_spawned (fst (updateTimer cfg now t)) then 1 else 0) \<and>
            countNotes isAlertNote k (snd (updateTimers cfg now tracked)) =
              (if \<not> t_alerted t \<and> t_alerted (fst (updateTimer cfg now t)) then 1 else 0)"
      using a b c d e by blast
  qed
  show ?thesis
    using c1 c2 c3 updateTimers_idem [of cfg now tracked] by blast
qed

theorem timer_flags_once_witness:
  "distinct (map fst [(7::npc_id, mk_timer 7 ''Fire Dragon'' 20000 False False)]) \<and>
   snd (timerTicks default_config [0, 6000, 6000, 20000, 21000, 60000]
          [(7, mk_timer 7 ''Fire Dragon'' 20000 False False)]) =
     [(7, SpawningIn (Some ''Fire Dragon'') 14), (7, HasSpawned (Some ''Fire Dragon''))] \<and>
   countNotes isSpawnedNote 7
     (snd (timerTicks default_config [0, 6000, 6000, 20000, 21000, 60000]
        [(7, mk_timer 7 ''Fire Dragon'' 20000 False False)])) \<le> 1 \<and>
   countNotes isAlertNote 7
     (snd (timerTicks default_config [0, 6000, 6000, 20000, 21000, 60000]
        [(7, mk_timer 7 ''Fire Dragon'' 20000 False False)])) \<le> 1 \<and>
   updateTimers default_config 6000
     (fst (updateTimers default_config 6000 [(7, mk_timer 7 ''Fire Dragon'' 20000 False False)])) =
   (fst (updateTimers default_config 6000 [(7, mk_timer 7 ''Fire Dragon'' 20000 False False)]), [])"
proof -
  have d: "distinct (map fst [(7::nat, mk_timer 7 ''Fire Dragon'' 20000 False False)])"
    by simp
  have r: "snd (timerTicks default_config [0, 6000, 6000, 20000, 21000, 60000]
          [(7, mk_timer 7 ''Fire Dragon'' 20000 False False)]) =
     [(7, SpawningIn (Some ''Fire Dragon'') 14), (7, HasSpawned (Some ''Fire Dragon''))]"
    by code_simp
  note T = timer_flags_once [OF d, of 7 default_config "[0, 6000, 6000, 20000, 21000, 60000]" 6000]
  have c1: "countNotes isSpawnedNote 7
     (snd (timerTicks default_config [0, 6000, 6000, 20000, 21000, 60000]
        [(7, mk_timer 7 ''Fire Dragon'' 20000 False False)])) \<le> 1"
    using T by (rule conjunct1)
  have c2: "countNotes isAlertNote 7
     (snd (timerTicks default_config [0, 6000, 6000, 20000, 21000, 60000]
        [(7, mk_timer 7 ''Fire Dragon'' 20000 False False)])) \<le> 1"
    using T by (elim conjE)
  have c3: "updateTimers default_config 6000
     (fst (updateTimers default_config 6000 [(7, mk_timer 7 ''Fire Dragon'' 20000 False False)])) =
   (fst (updateTimers default_config 6000 [(7, mk_timer 7 ''Fire Dragon'' 20000 False False)]), [])"
    using T by (elim conjE)
  show ?thesis
    using d r c1 c2 c3 by (intro conjI)
qed


section \<open>Facts about the first loop of monitorNPCHealth\<close>

lemma observeNPC_ids_mono: "fst acc \<subseteq> fst (observeNPC e acc)"
  by (cases e; cases acc; cases "snd e") (auto split: option.splits)

lemma observeNPCs_ids_mono: "fst acc \<subseteq> fst (fold observeNPC npcs acc)"
proof (induction npcs arbitrary: acc)
  case Nil
  then show ?case by simp
next
  case (Cons e es)
  show ?case using Cons [of "observeNPC e acc"] observeNPC_ids_mono [of acc e] by auto
qed

lemma map_of_onNPCDeath_other: "k \<noteq> k' \<Longrightarrow> map_of (onNPCDeath k' n m) k = map_of m k"
  by (simp add: onNPCDeath_def AList.map_of_map_entry split: option.splits)

lemma observeNPC_untouched:
  "k \<notin> fst (observeNPC e acc) \<Longrightarrow> map_of (snd (snd (observeNPC e acc))) k = map_of (snd (snd acc)) k"
  by (cases e; cases acc; cases "snd e")
     (auto simp: AList.update_conv' AList.map_of_map_entry map_of_onNPCDeath_other split: option.splits)

lemma observeNPCs_untouched:
  "k \<notin> fst (fold observeNPC npcs acc) \<Longrightarrow>
   map_of (snd (snd (fold observeNPC npcs acc))) k = map_of (snd (snd acc)) k"
proof (induction npcs arbitrary: acc)
  case Nil
  then show ?case by simp
next
  case (Cons e es)
  have "k \<notin> fst (observeNPC e acc)"
    using Cons.prems observeNPCs_ids_mono [of "observeNPC e acc" es] by auto
  then show ?case using Cons by (simp add: observeNPC_untouched)
qed

lemma observedHealth_untouched:
  "k \<notin> currentNPCIds npcs m \<Longrightarrow> map_of (observedHealth npcs m) k = map_of m k"
  using observeNPCs_untouched [of k npcs "({}, [], m)"]
  by (simp add: currentNPCIds_def observedHealth_def observeNPCs_def)

lemma distinct_onNPCDeath: "distinct (map fst m) \<Longrightarrow> distinct (map fst (onNPCDeath k n m))"
  by (simp add: onNPCDeath_def AList.distinct_map_entry split: option.splits)

lemma observeNPC_distinct:
  "distinct (map fst (snd (snd acc))) \<Longrightarrow> distinct (map fst (snd (snd (observeNPC e acc))))"
  by (cases e; cases acc; cases "snd e")
     (auto simp: AList.distinct_update AList.distinct_map_entry distinct_onNPCDeath split: option.splits)

lemma observeNPCs_distinct:
  "distinct (map fst (snd (snd acc))) \<Longrightarrow> distinct (map fst (snd (snd (fold observeNPC npcs acc))))"
  by (induction npcs arbitrary: acc) (auto simp: observeNPC_distinct)

lemma observedHealth_distinct:
  "distinct (map fst m) \<Longrightarrow> distinct (map fst (observedHealth npcs m))"
  using observeNPCs_distinct [of "({}, [], m)" npcs]
  by (simp add: observedHealth_def observeNPCs_def)

lemma keys_onNPCDeath: "fst ` set (onNPCDeath k n m) = fst ` set m"
  by (simp add: onNPCDeath_def AList.dom_map_entry split: option.splits)

lemma observeNPC_keys':
  "fst ` set (snd (snd (observeNPC e acc))) \<subseteq> fst ` set (snd (snd acc)) \<union> fst (observeNPC e acc)"
  by (cases e; cases acc; cases "snd e")
     (auto simp: AList.dom_update AList.dom_map_entry keys_onNPCDeath split: option.splits)

lemma observeNPCs_keys:
  "fst ` set (snd (snd (fold observeNPC npcs acc))) \<subseteq>
     fst ` set (snd (snd acc)) \<union> fst (fold observeNPC npcs acc)"
proof (induction npcs arbitrary: acc)
  case Nil
  then show ?case by simp
next
  case (Cons e es)
  show ?case
    using Cons [of "observeNPC e acc"] observeNPC_keys' [of e acc]
      observeNPCs_ids_mono [of "observeNPC e acc" es]
    by auto
qed

lemma observedHealth_keys:
  "fst ` set (observedHealth npcs m) \<subseteq> fst ` set m \<union> currentNPCIds npcs m"
  using observeNPCs_keys [of npcs "({}, [], m)"]
  by (simp add: currentNPCIds_def observedHealth_def observeNPCs_def)


section \<open>Facts about the second loop of monitorNPCHealth\<close>

lemma despawnEntry_cases:
  "despawnEntry cfg now ids (k, h) s = Completed s \<and> \<not> confirmed ids (k, h) \<or>
   despawnEntry cfg now ids (k, h) s =
      Completed (s\<lparr> npcHealthMap := AList.delete k (npcHealthMap s) \<rparr>) \<and>
      confirmed ids (k, h) \<and> (map_has (trackedNPCs s) k \<or> \<not> passesFilter cfg h) \<or>
   despawnEntry cfg now ids (k, h) s = Completed (despawnTimer cfg now k h s) \<and>
      confirmed ids (k, h) \<and> \<not> map_has (trackedNPCs s) k \<and> passesFilter cfg h \<or>
   (\<exists>e. despawnEntry cfg now ids (k, h) s = Threw e s) \<and>
      confirmed ids (k, h) \<and> \<not> map_has (trackedNPCs s) k \<and> \<not> passesFilter cfg h"
  by (auto simp: despawnEntry_def confirmed_def passesFilter_def split: option.splits sum.splits bool.splits)

lemma despawnTimer_health: "npcHealthMap (despawnTimer cfg now k h s) = AList.delete k (npcHealthMap s)"
  by (simp add: despawnTimer_def Let_def)

lemma despawnTimer_tracked:
  "trackedNPCs (despawnTimer cfg now k h s) =
     AList.update k (newTimer cfg now k (hd_name h)
        (case hd_position h of None \<Rightarrow> \<lparr> p_x = 0, p_y = 0 \<rparr> | Some p \<Rightarrow> p)
        (or_num (hd_level h) 1)) (trackedNPCs s)"
  by (simp add: despawnTimer_def Let_def trackNPCDeath_def)

text \<open>An entry with another key, or one that is not a despawn, leaves key \<open>k\<close> alone.\<close>

lemma despawnEntry_frame:
  "k \<noteq> k' \<or> \<not> confirmed ids (k', h) \<Longrightarrow>
   map_of (npcHealthMap (state_of (despawnEntry cfg now ids (k', h) s))) k = map_of (npcHealthMap s) k \<and>
   map_of (trackedNPCs (state_of (despawnEntry cfg now ids (k', h) s))) k = map_of (trackedNPCs s) k"
  using despawnEntry_cases [of cfg now ids k' h s]
  by (auto simp: despawnTimer_health despawnTimer_tracked AList.update_conv' AList.delete_conv')

lemma despawnLoop_frame:
  "\<forall>h. (k, h) \<in> set entries \<longrightarrow> \<not> confirmed ids (k, h) \<Longrightarrow>
   map_of (npcHealthMap (state_of (despawnLoop cfg now ids entries s))) k = map_of (npcHealthMap s) k \<and>
   map_of (trackedNPCs (state_of (despawnLoop cfg now ids entries s))) k = map_of (trackedNPCs s) k"
proof (induction entries arbitrary: s)
  case Nil
  then show ?case by simp
next
  case (Cons e es)
  obtain k' h where e: "e = (k', h)" by (cases e)
  have fr: "k \<noteq> k' \<or> \<not> confirmed ids (k', h)" using Cons.prems e by auto
  note step = despawnEntry_frame [OF fr, of cfg now s]
  show ?case
  proof (cases "despawnEntry cfg now ids e s")
    case (Completed s')
    have "map_of (npcHealthMap (state_of (despawnLoop cfg now ids es s'))) k = map_of (npcHealthMap s') k \<and>
          map_of (trackedNPCs (state_of (despawnLoop cfg now ids es s'))) k = map_of (trackedNPCs s') k"
      using Cons.IH [of s'] Cons.prems by simp
    then show ?thesis using step Completed e by simp
  next
    case (Threw x s')
    then show ?thesis using step e by simp
  qed
qed

lemma despawnEntry_confirmed:
  assumes "confirmed ids (k, h)" and "despawnEntry cfg now ids (k, h) s = Completed s'"
  shows "map_of (npcHealthMap s') k = None \<and>
         (map_has (trackedNPCs s') k \<longleftrightarrow> map_has (trackedNPCs s) k \<or> passesFilter cfg h) \<and>
         (\<not> map_has (trackedNPCs s) k \<and> passesFilter cfg h \<longrightarrow>
            map_of (trackedNPCs s') k =
              Some (newTimer cfg now k (hd_name h)
                (case hd_position h of None \<Rightarrow> \<lparr> p_x = 0, p_y = 0 \<rparr> | Some p \<Rightarrow> p)
                (or_num (hd_level h) 1)))"
  using despawnEntry_cases [of cfg now ids k h s] assms
  by (auto simp: despawnTimer_health despawnTimer_tracked AList.update_conv' AList.delete_conv' map_has_def)

lemma despawnLoop_confirmed:
  assumes "distinct (map fst entries)" and "(k, h) \<in> set entries" and "confirmed ids (k, h)"
    and "despawnLoop cfg now ids entries s = Completed s'"
  shows "map_of (npcHealthMap s') k = None \<and>
         (map_has (trackedNPCs s') k \<longleftrightarrow> map_has (trackedNPCs s) k \<or> passesFilter cfg h) \<and>
         (\<not> map_has (trackedNPCs s) k \<and> passesFilter cfg h \<longrightarrow>
            map_of (trackedNPCs s') k =
              Some (newTimer cfg now k (hd_name h)
                (case hd_position h of None \<Rightarrow> \<lparr> p_x = 0, p_y = 0 \<rparr> | Some p \<Rightarrow> p)
                (or_num (hd_level h) 1)))"
  using assms
proof (induction entries arbitrary: s)
  case Nil
  then show ?case by simp
next
  case (Cons e es)
  obtain k' h' where e: "e = (k', h')" by (cases e)
  obtain s1 where s1: "despawnEntry cfg now ids e s = Completed s1"
    and rest: "despawnLoop cfg now ids es s1 = Completed s'"
    using Cons.prems(4) by (cases "despawnEntry cfg now ids e s") auto
  show ?case
  proof (cases "(k, h) = e")
    case True
    have "k \<notin> fst ` set es" using Cons.prems(1) True [symmetric] by simp
    have nok: "\<forall>x. (k, x) \<in> set es \<longrightarrow> \<not> confirmed ids (k, x)"
    proof (intro allI impI)
      fix x
      assume "(k, x) \<in> set es"
      then have "fst (k, x) \<in> fst ` set es" by (rule imageI)
      then show "\<not> confirmed ids (k, x)" using \<open>k \<notin> fst ` set es\<close> by simp
    qed
    have same: "map_of (npcHealthMap s') k = map_of (npcHealthMap s1) k"
               "map_of (trackedNPCs s') k = map_of (trackedNPCs s1) k"
      using despawnLoop_frame [OF nok, of cfg now s1] rest by simp_all
    show ?thesis
      using despawnEntry_confirmed [OF Cons.prems(3), of cfg now s s1] s1 True same
      by (simp add: map_has_def)
  next
    case False
    then have mem: "(k, h) \<in> set es" using Cons.prems(2) by auto
    then have "k \<noteq> k'" using Cons.prems(1) e by force
    then have fr: "map_of (npcHealthMap s1) k = map_of (npcHealthMap s) k"
                  "map_of (trackedNPCs s1) k = map_of (trackedNPCs s) k"
      using despawnEntry_frame [of k k' ids h' cfg now s] s1 e by simp_all
    have d: "distinct (map fst es)" using Cons.prems(1) by simp
    show ?thesis
      using Cons.IH [OF d mem Cons.prems(3) rest] fr by (simp add: map_has_def)
  qed
qed

lemma despawnEntry_wf:
  "wf_state s \<Longrightarrow> wf_state (state_of (despawnEntry cfg now ids (k, h) s))"
  using despawnEntry_cases [of cfg now ids k h s]
  by (auto simp: wf_state_def despawnTimer_health despawnTimer_tracked AList.distinct_update AList.distinct_delete)

lemma separate_iff:
  "separate s \<longleftrightarrow> (\<forall>k. \<not> (map_has (npcHealthMap s) k \<and> map_has (trackedNPCs s) k))"
  by (auto simp: separate_def map_has_def map_of_eq_None_iff)

lemma despawnEntry_separate:
  assumes "separate s"
  shows "separate (state_of (despawnEntry cfg now ids (k, h) s))"
  unfolding separate_iff
proof (intro allI)
  fix j
  have "\<not> (map_has (npcHealthMap s) j \<and> map_has (trackedNPCs s) j)"
    using assms by (simp add: separate_iff)
  then show "\<not> (map_has (npcHealthMap (state_of (despawnEntry cfg now ids (k, h) s))) j \<and>
            map_has (trackedNPCs (state_of (despawnEntry cfg now ids (k, h) s))) j)"
    using despawnEntry_cases [of cfg now ids k h s]
    by (auto simp: map_has_def despawnTimer_health despawnTimer_tracked AList.update_conv'
        AList.delete_conv')
qed

lemma despawnLoop_inv:
  "wf_state s \<Longrightarrow> wf_state (state_of (despawnLoop cfg now ids entries s))"
  "separate s \<Longrightarrow> separate (state_of (despawnLoop cfg now ids entries s))"
proof (induction entries arbitrary: s)
  case Nil
  { case 1 then show ?case by simp }
  { case 2 then show ?case by simp }
next
  case (Cons e es)
  { case 1
    obtain k h where e: "e = (k, h)" by (cases e)
    show ?case using Cons.IH(1) [of "state_of (despawnEntry cfg now ids e s)"] despawnEntry_wf [OF 1, of cfg now ids k h] e
      by (cases "despawnEntry cfg now ids e s") auto }
  { case 2
    obtain k h where e: "e = (k, h)" by (cases e)
    show ?case using Cons.IH(2) [of "state_of (despawnEntry cfg now ids e s)"] despawnEntry_separate [OF 2, of cfg now ids k h] e
      by (cases "despawnEntry cfg now ids e s") auto }
qed

lemma monitorNPCHealth_unfold:
  "opt_field em em_npcs = Some npcs \<Longrightarrow>
   monitorNPCHealth cfg now em s =
     despawnLoop cfg now (currentNPCIds npcs (npcHealthMap s)) (observedHealth npcs (npcHealthMap s))
       (s\<lparr> npcHealthMap := observedHealth npcs (npcHealthMap s) \<rparr>)"
  by (simp add: monitorNPCHealth_def Let_def)


section \<open>From health record to timer\<close>

text \<open>
  Claim C1, as amended. A call of \<open>monitorNPCHealth\<close> creates a timer for an id
  only if, when the call starts, the health map has a record for the id whose cached
  health is exactly zero and the id is not among the NPCs of the current snapshot
  (\<open>currentNPCIds\<close>); the zero may have been cached on first sight, without a change
  from a positive value. A record whose cached health is not zero and whose id is not
  in the snapshot is kept as it is, and the timer registry is unchanged at that id.
\<close>

theorem timer_only_from_zero_health:
  assumes "distinct (map fst (npcHealthMap s))"
  shows "(\<not> map_has (trackedNPCs s) k \<and>
          map_has (trackedNPCs (state_of (monitorNPCHealth cfg now em s))) k \<longrightarrow>
            (\<exists>npcs h. opt_field em em_npcs = Some npcs \<and>
               k \<notin> currentNPCIds npcs (npcHealthMap s) \<and>
               map_of (npcHealthMap s) k = Some h \<and> hd_hp h = 0)) \<and>
         (\<forall>npcs h. opt_field em em_npcs = Some npcs \<and>
               k \<notin> currentNPCIds npcs (npcHealthMap s) \<and>
               map_of (npcHealthMap s) k = Some h \<and> hd_hp h \<noteq> 0 \<longrightarrow>
            map_of (npcHealthMap (state_of (monitorNPCHealth cfg now em s))) k = Some h \<and>
            map_of (trackedNPCs (state_of (monitorNPCHealth cfg now em s))) k =
              map_of (trackedNPCs s) k)"
proof (intro conjI impI allI)
  assume a: "\<not> map_has (trackedNPCs s) k \<and>
          map_has (trackedNPCs (state_of (monitorNPCHealth cfg now em s))) k"
  show "\<exists>npcs h. opt_field em em_npcs = Some npcs \<and>
               k \<notin> currentNPCIds npcs (npcHealthMap s) \<and>
               map_of (npcHealthMap s) k = Some h \<and> hd_hp h = 0"
  proof (cases "opt_field em em_npcs")
    case None
    then have "monitorNPCHealth cfg now em s = Completed s" by (simp add: monitorNPCHealth_def)
    then show ?thesis using a by simp
  next
    case (Some npcs)
    let ?m = "observedHealth npcs (npcHealthMap s)"
    let ?ids = "currentNPCIds npcs (npcHealthMap s)"
    have d: "distinct (map fst ?m)" using assms by (rule observedHealth_distinct)
    have "\<not> (\<forall>h. (k, h) \<in> set ?m \<longrightarrow> \<not> confirmed ?ids (k, h))"
    proof
      assume "\<forall>h. (k, h) \<in> set ?m \<longrightarrow> \<not> confirmed ?ids (k, h)"
      then have "map_of (trackedNPCs (state_of (monitorNPCHealth cfg now em s))) k =
          map_of (trackedNPCs s) k"
        using despawnLoop_frame [of k ?m ?ids cfg now "s\<lparr> npcHealthMap := ?m \<rparr>"]
          monitorNPCHealth_unfold [OF Some, of cfg now s]
        by simp
      then show False using a by (auto simp: map_has_def)
    qed
    then obtain h where mem: "(k, h) \<in> set ?m" and c: "confirmed ?ids (k, h)" by blast
    have notin: "k \<notin> ?ids" and z: "hd_hp h = 0" using c by (simp_all add: confirmed_def)
    have "map_of ?m k = Some h" using d mem by simp
    then have "map_of (npcHealthMap s) k = Some h" using notin by (simp add: observedHealth_untouched)
    then show ?thesis using Some notin z by blast
  qed
next
  fix npcs h
  assume b: "opt_field em em_npcs = Some npcs \<and>
               k \<notin> currentNPCIds npcs (npcHealthMap s) \<and>
               map_of (npcHealthMap s) k = Some h \<and> hd_hp h \<noteq> 0"
  let ?m = "observedHealth npcs (npcHealthMap s)"
  let ?ids = "currentNPCIds npcs (npcHealthMap s)"
  have d: "distinct (map fst ?m)" using assms by (rule observedHealth_distinct)
  have mk: "map_of ?m k = Some h" using b by (simp add: observedHealth_untouched)
  have nc: "\<forall>x. (k, x) \<in> set ?m \<longrightarrow> \<not> confirmed ?ids (k, x)"
  proof (intro allI impI)
    fix x
    assume "(k, x) \<in> set ?m"
    then have "map_of ?m k = Some x" using d by simp
    then have "x = h" using mk by simp
    then show "\<not> confirmed ?ids (k, x)" using b by (simp add: confirmed_def)
  qed
  have u: "monitorNPCHealth cfg now em s =
     despawnLoop cfg now ?ids ?m (s\<lparr> npcHealthMap := ?m \<rparr>)"
    using b monitorNPCHealth_unfold [of em npcs cfg now s] by simp
  show "map_of (npcHealthMap (state_of (monitorNPCHealth cfg now em s))) k = Some h"
    using despawnLoop_frame [OF nc, of cfg now "s\<lparr> npcHealthMap := ?m \<rparr>"] u mk by simp
  show "map_of (trackedNPCs (state_of (monitorNPCHealth cfg now em s))) k = map_of (trackedNPCs s) k"
    using despawnLoop_frame [OF nc, of cfg now "s\<lparr> npcHealthMap := ?m \<rparr>"] u by simp
qed

theorem timer_only_from_zero_health_witness:
  "distinct (map fst (npcHealthMap dragon_dead_state)) \<and>
   \<not> map_has (trackedNPCs dragon_dead_state) 7 \<and>
   map_has (trackedNPCs (state_of (monitorNPCHealth default_config 1000 (snapshot []) dragon_dead_state))) 7 \<and>
   map_of (npcHealthMap dragon_dead_state) 7 = Some \<lparr> hd_hp = 0, hd_maxHP = 10, hd_name = Some ''Fire Dragon'',
        hd_position = Some \<lparr> p_x = 10, p_y = 20 \<rparr>, hd_level = Some 1,
        hd_npcRef = Some dragon_dead \<rparr> \<and>
   distinct (map fst (npcHealthMap dragon_alive_state)) \<and>
   map_of (npcHealthMap dragon_alive_state) 7 = Some \<lparr> hd_hp = 10, hd_maxHP = 10, hd_name = Some ''Fire Dragon'',
        hd_position = None, hd_level = None, hd_npcRef = None \<rparr> \<and>
   map_of (npcHealthMap (state_of (monitorNPCHealth default_config 1000 (snapshot []) dragon_alive_state))) 7 =
     Some \<lparr> hd_hp = 10, hd_maxHP = 10, hd_name = Some ''Fire Dragon'',
        hd_position = None, hd_level = None, hd_npcRef = None \<rparr> \<and>
   map_of (trackedNPCs (state_of (monitorNPCHealth default_config 1000 (snapshot []) dragon_alive_state))) 7 =
     map_of (trackedNPCs dragon_alive_state) 7"
proof -
  have d1: "distinct (map fst (npcHealthMap dragon_dead_state))"
    by code_simp
  have n1: "\<not> map_has (trackedNPCs dragon_dead_state) 7"
    by code_simp
  have t1: "map_has (trackedNPCs (state_of (monitorNPCHealth default_config 1000 (snapshot []) dragon_dead_state))) 7"
    by code_simp
  have h1: "map_of (npcHealthMap dragon_dead_state) 7 = Some \<lparr> hd_hp = 0, hd_maxHP = 10, hd_name = Some ''Fire Dragon'',
        hd_position = Some \<lparr> p_x = 10, p_y = 20 \<rparr>, hd_level = Some 1,
        hd_npcRef = Some dragon_dead \<rparr>"
    by code_simp
  have d2: "distinct (map fst (npcHealthMap dragon_alive_state))"
    by code_simp
  have e2: "opt_field (snapshot []) em_npcs = Some []"
    by (simp add: snapshot_def opt_field_def)
  have i2: "7 \<notin> currentNPCIds [] (npcHealthMap dragon_alive_state)"
    by (simp add: currentNPCIds_def observeNPCs_def)
  have h2: "map_of (npcHealthMap dragon_alive_state) 7 = Some \<lparr> hd_hp = 10, hd_maxHP = 10, hd_name = Some ''Fire Dragon'',
        hd_position = None, hd_level = None, hd_npcRef = None \<rparr>"
    by code_simp
  have z2: "hd_hp \<lparr> hd_hp = 10, hd_maxHP = 10, hd_name = Some ''Fire Dragon'',
        hd_position = None, hd_level = None, hd_npcRef = None \<rparr> \<noteq> 0"
    by simp
  note A = timer_only_from_zero_health [OF d1, of 7 default_config 1000 "snapshot []"]
  note B = timer_only_from_zero_health [OF d2, of 7 default_config 1000 "snapshot []"]
  have b: "map_of (npcHealthMap (state_of (monitorNPCHealth default_config 1000 (snapshot []) dragon_alive_state))) 7 =
     Some \<lparr> hd_hp = 10, hd_maxHP = 10, hd_name = Some ''Fire Dragon'',
        hd_position = None, hd_level = None, hd_npcRef = None \<rparr> \<and>
   map_of (trackedNPCs (state_of (monitorNPCHealth default_config 1000 (snapshot []) dragon_alive_state))) 7 =
     map_of (trackedNPCs dragon_alive_state) 7"
    using B e2 i2 h2 z2 by blast
  have a: "\<exists>npcs h. opt_field (snapshot []) em_npcs = Some npcs \<and>
      7 \<notin> currentNPCIds npcs (npcHealthMap dragon_dead_state) \<and>
      map_of (npcHealthMap dragon_dead_state) 7 = Some h \<and> hd_hp h = 0"
    using A n1 t1 by blast
  show ?thesis
    using d1 n1 t1 h1 d2 h2 b by blast
qed

text \<open>
  Claim C1 as stated fails for an NPC that is at zero health when it is first seen:
  neither tick detects a change from positive health to zero (\<open>onNPCDeath\<close> is never
  called), the NPC is gone on the second tick, and a timer is created.
\<close>

theorem timer_only_from_zero_health_counterexample:
  "deathsObserved [(7, Some dragon_dead)] (npcHealthMap init_state) = [] \<and>
   deathsObserved [] (npcHealthMap (monitorTicks default_config
        [(0, snapshot [(7, Some dragon_dead)])] init_state)) = [] \<and>
   \<not> map_has (trackedNPCs (monitorTicks default_config
        [(0, snapshot [(7, Some dragon_dead)])] init_state)) 7 \<and>
   map_has (trackedNPCs (monitorTicks default_config
        [(0, snapshot [(7, Some dragon_dead)]), (1000, snapshot [])] init_state)) 7"
  by code_simp

text \<open>
  Claim C2, as amended. For an id that is not in the current snapshot, has cached
  health zero and is not tracked yet, a call of \<open>monitorNPCHealth\<close> that returns
  normally constructs a timer exactly when the record has no cached NPC reference (no
  death was seen, so the filter is not applied) or \<open>shouldTrackNPC\<close> accepts the cached
  NPC; in both cases the health record is gone afterwards.
\<close>

theorem despawn_confirmation:
  assumes "distinct (map fst (npcHealthMap s))"
    and "opt_field em em_npcs = Some npcs"
    and "k \<notin> currentNPCIds npcs (npcHealthMap s)"
    and "map_of (npcHealthMap s) k = Some h" and "hd_hp h = 0"
    and "\<not> map_has (trackedNPCs s) k"
    and "monitorNPCHealth cfg now em s = Completed s'"
  shows "(map_has (trackedNPCs s') k \<longleftrightarrow>
            (case hd_npcRef h of
               None \<Rightarrow> True
             | Some npcRef \<Rightarrow> shouldTrackNPC cfg npcRef (hd_name h) = Inr True)) \<and>
         \<not> map_has (npcHealthMap s') k"
proof -
  let ?m = "observedHealth npcs (npcHealthMap s)"
  let ?ids = "currentNPCIds npcs (npcHealthMap s)"
  have d: "distinct (map fst ?m)" using assms(1) by (rule observedHealth_distinct)
  have "map_of ?m k = Some h" using assms(3,4) by (simp add: observedHealth_untouched)
  then have mem: "(k, h) \<in> set ?m" by (rule map_of_SomeD)
  have c: "confirmed ?ids (k, h)" using assms(3,5) by (simp add: confirmed_def)
  have run: "despawnLoop cfg now ?ids ?m (s\<lparr> npcHealthMap := ?m \<rparr>) = Completed s'"
    using assms(7) monitorNPCHealth_unfold [OF assms(2)] by simp
  show ?thesis
    using despawnLoop_confirmed [OF d mem c run] assms(6)
    by (simp add: map_has_def passesFilter_def)
qed

theorem despawn_confirmation_witness:
  "distinct (map fst (npcHealthMap dragon_dead_state)) \<and>
   opt_field (snapshot []) em_npcs = Some [] \<and>
   7 \<notin> currentNPCIds [] (npcHealthMap dragon_dead_state) \<and>
   map_of (npcHealthMap dragon_dead_state) 7 = Some \<lparr> hd_hp = 0, hd_maxHP = 10, hd_name = Some ''Fire Dragon'',
        hd_position = Some \<lparr> p_x = 10, p_y = 20 \<rparr>, hd_level = Some 1,
        hd_npcRef = Some dragon_dead \<rparr> \<and>
   \<not> map_has (trackedNPCs dragon_dead_state) 7 \<and>
   monitorNPCHealth default_config 1000 (snapshot []) dragon_dead_state =
     Completed \<lparr> npcHealthMap = [], trackedNPCs = [(7, \<lparr> t_id = 7, t_name = Some ''Fire Dragon'', t_position = \<lparr> p_x = 10, p_y = 20 \<rparr>,
        t_level = 1, t_spawnTimestamp = Num 601000, t_respawnTime = Seconds 600,
        t_alerted = False, t_spawned = False \<rparr>)] \<rparr> \<and>
   shouldTrackNPC default_config dragon_dead (Some ''Fire Dragon'') = Inr True \<and>
   map_has (trackedNPCs \<lparr> npcHealthMap = [], trackedNPCs = [(7, \<lparr> t_id = 7, t_name = Some ''Fire Dragon'', t_position = \<lparr> p_x = 10, p_y = 20 \<rparr>,
        t_level = 1, t_spawnTimestamp = Num 601000, t_respawnTime = Seconds 600,
        t_alerted = False, t_spawned = False \<rparr>)] \<rparr>) 7 \<and>
   \<not> map_has (npcHealthMap \<lparr> npcHealthMap = [], trackedNPCs = [(7, \<lparr> t_id = 7, t_name = Some ''Fire Dragon'', t_position = \<lparr> p_x = 10, p_y = 20 \<rparr>,
        t_level = 1, t_spawnTimestamp = Num 601000, t_respawnTime = Seconds 600,
        t_alerted = False, t_spawned = False \<rparr>)] \<rparr>) 7"
proof -
  have d: "distinct (map fst (npcHealthMap dragon_dead_state))"
    by code_simp
  have e: "opt_field (snapshot []) em_npcs = Some []"
    by (simp add: snapshot_def opt_field_def)
  have i: "7 \<notin> currentNPCIds [] (npcHealthMap dragon_dead_state)"
    by (simp add: currentNPCIds_def observeNPCs_def)
  have h: "map_of (npcHealthMap dragon_dead_state) 7 = Some \<lparr> hd_hp = 0, hd_maxHP = 10, hd_name = Some ''Fire Dragon'',
        hd_position = Some \<lparr> p_x = 10, p_y = 20 \<rparr>, hd_level = Some 1,
        hd_npcRef = Some dragon_dead \<rparr>"
    by code_simp
  have z: "hd_hp \<lparr> hd_hp = 0, hd_maxHP = 10, hd_name = Some ''Fire Dragon'',
        hd_position = Some \<lparr> p_x = 10, p_y = 20 \<rparr>, hd_level = Some 1,
        hd_npcRef = Some dragon_dead \<rparr> = 0"
    by simp
  have n: "\<not> map_has (trackedNPCs dragon_dead_state) 7"
    by code_simp
  have r: "monitorNPCHealth default_config 1000 (snapshot []) dragon_dead_state =
     Completed \<lparr> npcHealthMap = [], trackedNPCs = [(7, \<lparr> t_id = 7, t_name = Some ''Fire Dragon'', t_position = \<lparr> p_x = 10, p_y = 20 \<rparr>,
        t_level = 1, t_spawnTimestamp = Num 601000, t_respawnTime = Seconds 600,
        t_alerted = False, t_spawned = False \<rparr>)] \<rparr>"
    by code_simp
  have f: "shouldTrackNPC default_config dragon_dead (Some ''Fire Dragon'') = Inr True"
    by code_simp
  note T = despawn_confirmation [OF d e i h z n r]
  show ?thesis
    using d e i h n r f T by simp
qed

text \<open>
  Claim C2 as stated fails for a record without a cached NPC reference: a rat that is
  at zero health when first seen and gone on the next tick is not tracked yet and is
  despawn-confirmed; \<open>shouldTrackNPC\<close> rejects it (the name is blacklisted), and a timer
  is constructed all the same.
\<close>

theorem despawn_confirmation_counterexample:
  "shouldTrackNPC default_config (mk_npc ''rat'' (Some 0) None 99) (Some ''rat'') = Inr False \<and>
   monitorTicks default_config
       [(0, snapshot [(7, Some (mk_npc ''rat'' (Some 0) None 99))])] init_state =
     \<lparr> npcHealthMap =
         [(7, \<lparr> hd_hp = 0, hd_maxHP = 100, hd_name = Some ''rat'', hd_position = None,
                hd_level = None, hd_npcRef = None \<rparr>)],
       trackedNPCs = [] \<rparr> \<and>
   map_has (trackedNPCs (state_of (monitorNPCHealth default_config 1000 (snapshot [])
     (monitorTicks default_config
        [(0, snapshot [(7, Some (mk_npc ''rat'' (Some 0) None 99))])] init_state)))) 7"
  by code_simp

text \<open>
  The amended claim is about calls that return. A call can also throw: an NPC whose
  \<open>_def\<close> has no \<open>_name\<close> is cached with a missing name, and once its death has been
  seen the filter's \<open>npcName.toLowerCase()\<close> throws when the NPC is gone; the record
  stays in the health map and no timer is made.
\<close>

lemma despawn_of_unnamed_npc_throws:
  "monitorNPCHealth default_config 1000 (snapshot [])
     \<lparr> npcHealthMap =
         [(7, \<lparr> hd_hp = 0, hd_maxHP = 10, hd_name = None,
                hd_position = Some \<lparr> p_x = 10, p_y = 20 \<rparr>, hd_level = Some 1,
                hd_npcRef = Some (dragon_dead\<lparr> n_def :=
                  Some \<lparr> d_name = None, d_nameCapitalized = Some ''Fire Dragon'' \<rparr> \<rparr>) \<rparr>)],
       trackedNPCs = [] \<rparr> =
   Threw TypeError
     \<lparr> npcHealthMap =
         [(7, \<lparr> hd_hp = 0, hd_maxHP = 10, hd_name = None,
                hd_position = Some \<lparr> p_x = 10, p_y = 20 \<rparr>, hd_level = Some 1,
                hd_npcRef = Some (dragon_dead\<lparr> n_def :=
                  Some \<lparr> d_name = None, d_nameCapitalized = Some ''Fire Dragon'' \<rparr> \<rparr>) \<rparr>)],
       trackedNPCs = [] \<rparr>"
  by code_simp


section \<open>One registry per id\<close>

lemma monitorNPCHealth_wf:
  assumes "wf_state s"
  shows "wf_state (state_of (monitorNPCHealth cfg now em s))"
proof (cases "opt_field em em_npcs")
  case None
  then show ?thesis using assms by (simp add: monitorNPCHealth_def)
next
  case (Some npcs)
  have "wf_state (s\<lparr> npcHealthMap := observedHealth npcs (npcHealthMap s) \<rparr>)"
    using assms by (simp add: wf_state_def observedHealth_distinct)
  then show ?thesis
    using despawnLoop_inv(1) monitorNPCHealth_unfold [OF Some, of cfg now s] by simp
qed

lemma map_has_iff: "map_has m k \<longleftrightarrow> k \<in> fst ` set m"
  by (simp add: map_has_def map_of_eq_None_iff)

lemma map_has_onNPCDeath: "map_has (onNPCDeath k' n m) k = map_has m k"
  by (simp add: onNPCDeath_def map_has_def AList.map_of_map_entry split: option.splits)

lemma observeNPC_map_has:
  "map_has (snd (snd (observeNPC e acc))) k \<longleftrightarrow>
     map_has (snd (snd acc)) k \<or>
     (\<exists>n h. e = (k, Some n) \<and> n_def n \<noteq> None \<and> hitpointsOf n = Some h)"
proof -
  obtain k' x where e: "e = (k', x)" by (cases e)
  obtain ids deaths m where acc: "acc = (ids, deaths, m)" by (cases acc)
  have d: "\<And>n j. map_of (onNPCDeath k' n m) j = None \<longleftrightarrow> map_of m j = None"
    by (simp add: onNPCDeath_def AList.map_of_map_entry split: option.splits)
  show ?thesis
    unfolding e acc
    by (cases x)
       (auto simp: map_has_def AList.update_conv' AList.map_of_map_entry d map_of_onNPCDeath_other
          split: option.splits if_splits)
qed

lemma observeNPC_keeps:
  "map_has (snd (snd acc)) k \<Longrightarrow> map_has (snd (snd (observeNPC e acc))) k"
  by (simp add: observeNPC_map_has)

lemma observeNPCs_keeps:
  "map_has (snd (snd acc)) k \<Longrightarrow> map_has (snd (snd (fold observeNPC npcs acc))) k"
  by (induction npcs arbitrary: acc) (auto simp: observeNPC_keeps)

lemma observeNPC_in_ids:
  "n_def n \<noteq> None \<Longrightarrow> k \<in> fst (observeNPC (k, Some n) acc)"
  by (cases acc) (auto split: option.splits)

lemma observeNPC_records:
  "n_def n \<noteq> None \<Longrightarrow> hitpointsOf n = Some h \<Longrightarrow>
   map_has (snd (snd (observeNPC (k, Some n) acc))) k \<and> k \<in> fst (observeNPC (k, Some n) acc)"
  by (simp add: observeNPC_map_has observeNPC_in_ids)

lemma observeNPCs_records:
  "(k, Some n) \<in> set npcs \<Longrightarrow> n_def n \<noteq> None \<Longrightarrow> hitpointsOf n = Some h \<Longrightarrow>
   map_has (snd (snd (fold observeNPC npcs acc))) k \<and> k \<in> fst (fold observeNPC npcs acc)"
proof (induction npcs arbitrary: acc)
  case Nil
  then show ?case by simp
next
  case (Cons e es)
  show ?case
  proof (cases "e = (k, Some n)")
    case True
    have "map_has (snd (snd (observeNPC e acc))) k \<and> k \<in> fst (observeNPC e acc)"
      using True observeNPC_records [OF Cons.prems(2,3), of k acc] by simp
    then show ?thesis
      using observeNPCs_keeps [of "observeNPC e acc" k es]
        observeNPCs_ids_mono [of "observeNPC e acc" es]
      by auto
  next
    case False
    then have "(k, Some n) \<in> set es" using Cons.prems(1) by simp
    then show ?thesis using Cons.IH [OF _ Cons.prems(2,3), of "observeNPC e acc"] by simp
  qed
qed

lemma observedHealth_records:
  "(k, Some n) \<in> set npcs \<Longrightarrow> n_def n \<noteq> None \<Longrightarrow> hitpointsOf n = Some h \<Longrightarrow>
   map_has (observedHealth npcs m) k \<and> k \<in> currentNPCIds npcs m"
  using observeNPCs_records [of k n npcs h "({}, [], m)"]
  by (simp add: observedHealth_def currentNPCIds_def observeNPCs_def)

lemma observeNPC_new_record:
  "map_has (snd (snd (observeNPC e acc))) k \<Longrightarrow>
   map_has (snd (snd acc)) k \<or>
   (\<exists>n h. e = (k, Some n) \<and> n_def n \<noteq> None \<and> hitpointsOf n = Some h)"
  by (simp add: observeNPC_map_has)

lemma observeNPCs_new_record:
  "map_has (snd (snd (fold observeNPC npcs acc))) k \<Longrightarrow>
   map_has (snd (snd acc)) k \<or>
   (\<exists>n h. (k, Some n) \<in> set npcs \<and> n_def n \<noteq> None \<and> hitpointsOf n = Some h)"
proof (induction npcs arbitrary: acc)
  case Nil
  then show ?case by simp
next
  case (Cons e es)
  from Cons.IH [OF Cons.prems [simplified]]
  consider "map_has (snd (snd (observeNPC e acc))) k"
    | "\<exists>n h. (k, Some n) \<in> set es \<and> n_def n \<noteq> None \<and> hitpointsOf n = Some h"
    by blast
  then show ?case
  proof cases
    case 1
    then show ?thesis using observeNPC_new_record [of e acc k] by auto
  next
    case 2
    then show ?thesis by auto
  qed
qed

lemma observedHealth_new_record:
  "map_has (observedHealth npcs m) k \<Longrightarrow>
   map_has m k \<or> (\<exists>n h. (k, Some n) \<in> set npcs \<and> n_def n \<noteq> None \<and> hitpointsOf n = Some h)"
  using observeNPCs_new_record [of npcs "({}, [], m)" k]
  by (simp add: observedHealth_def observeNPCs_def)

text \<open>The second loop leaves an id of the snapshot alone.\<close>

lemma despawnLoop_snapshot_id:
  "k \<in> ids \<Longrightarrow>
   map_of (npcHealthMap (state_of (despawnLoop cfg now ids entries s))) k = map_of (npcHealthMap s) k \<and>
   map_of (trackedNPCs (state_of (despawnLoop cfg now ids entries s))) k = map_of (trackedNPCs s) k"
  by (rule despawnLoop_frame) (simp add: confirmed_def)

lemma monitorNPCHealth_reappearing:
  assumes "opt_field em em_npcs = Some npcs" and "(k, Some n) \<in> set npcs"
    and "n_def n \<noteq> None" and "hitpointsOf n = Some h"
  shows "map_has (npcHealthMap (state_of (monitorNPCHealth cfg now em s))) k \<and>
         map_of (trackedNPCs (state_of (monitorNPCHealth cfg now em s))) k = map_of (trackedNPCs s) k"
proof -
  let ?m = "observedHealth npcs (npcHealthMap s)"
  let ?ids = "currentNPCIds npcs (npcHealthMap s)"
  have r: "map_has ?m k" and i: "k \<in> ?ids"
    using observedHealth_records [OF assms(2,3,4), of "npcHealthMap s"] by simp_all
  show ?thesis
    using despawnLoop_snapshot_id [OF i, of cfg now ?m "s\<lparr> npcHealthMap := ?m \<rparr>"]
      monitorNPCHealth_unfold [OF assms(1), of cfg now s] r
    by (simp add: map_has_def)
qed

lemma monitorNPCHealth_separate:
  assumes "separate s"
    and "\<forall>npcs k n h. opt_field em em_npcs = Some npcs \<and> (k, Some n) \<in> set npcs \<and>
           n_def n \<noteq> None \<and> hitpointsOf n = Some h \<longrightarrow> \<not> map_has (trackedNPCs s) k"
  shows "separate (state_of (monitorNPCHealth cfg now em s))"
proof (cases "opt_field em em_npcs")
  case None
  then show ?thesis using assms by (simp add: monitorNPCHealth_def)
next
  case (Some npcs)
  let ?m = "observedHealth npcs (npcHealthMap s)"
  have "separate (s\<lparr> npcHealthMap := ?m \<rparr>)"
    unfolding separate_iff
  proof (intro allI)
    fix j
    have old: "\<not> (map_has (npcHealthMap s) j \<and> map_has (trackedNPCs s) j)"
      using assms(1) by (simp add: separate_iff)
    have new: "map_has ?m j \<Longrightarrow> map_has (npcHealthMap s) j \<or>
        (\<exists>n h. (j, Some n) \<in> set npcs \<and> n_def n \<noteq> None \<and> hitpointsOf n = Some h)"
      by (rule observedHealth_new_record)
    have fresh: "(\<exists>n h. (j, Some n) \<in> set npcs \<and> n_def n \<noteq> None \<and> hitpointsOf n = Some h)
        \<Longrightarrow> \<not> map_has (trackedNPCs s) j"
      using assms(2) Some by blast
    show "\<not> (map_has (npcHealthMap (s\<lparr> npcHealthMap := ?m \<rparr>)) j \<and>
              map_has (trackedNPCs (s\<lparr> npcHealthMap := ?m \<rparr>)) j)"
      using old new fresh by auto
  qed
  then show ?thesis
    using despawnLoop_inv(2) monitorNPCHealth_unfold [OF Some, of cfg now s] by simp
qed

lemma map_has_updateTimers:
  "map_has (fst (updateTimers cfg now tracked)) k \<Longrightarrow> map_has tracked k"
  using keys_updateTimers [of cfg now tracked]
  by (simp add: map_has_def map_of_eq_None_iff) blast

lemma updateTimers_keeps:
  "wf_state s \<Longrightarrow> wf_state (s\<lparr> trackedNPCs := fst (updateTimers cfg now (trackedNPCs s)) \<rparr>)"
  "separate s \<Longrightarrow> separate (s\<lparr> trackedNPCs := fst (updateTimers cfg now (trackedNPCs s)) \<rparr>)"
  using map_has_updateTimers [of cfg now "trackedNPCs s"]
  by (auto simp: wf_state_def separate_iff distinct_updateTimers)

lemma GameLoop_update_state:
  "state_of (fst (GameLoop_update cfg active now1 now2 em s)) =
     (if \<not> active then s
      else case monitorNPCHealth cfg now1 em s of
        Threw e s' \<Rightarrow> s'
      | Completed s' \<Rightarrow> s'\<lparr> trackedNPCs := fst (updateTimers cfg now2 (trackedNPCs s')) \<rparr>)"
  by (simp add: GameLoop_update_def split: outcome.splits prod.splits)

text \<open>
  Claim C8, as amended. Every frame keeps each registry a map, so an id has at most
  one health record and at most one timer. A frame keeps the two registries disjoint
  provided no NPC of the snapshot that has a definition and hitpoints has a live timer
  for its id; when a timer is created, the health record of its id is removed in the
  same pass. When such an NPC is in the snapshot while a timer for its id is live,
  \<open>monitorNPCHealth\<close> leaves a health record for the id beside the unchanged timer, so
  after the frame the id has a health record, and also the timer unless
  \<open>updateTimers\<close> ran in that frame and swept it.
\<close>

theorem registries_separate:
  assumes "wf_state s"
  shows "wf_state (state_of (fst (GameLoop_update cfg active now1 now2 em s))) \<and>
         (separate s \<and>
          (\<forall>npcs j n h. opt_field em em_npcs = Some npcs \<and> (j, Some n) \<in> set npcs \<and>
             n_def n \<noteq> None \<and> hitpointsOf n = Some h \<longrightarrow> \<not> map_has (trackedNPCs s) j) \<longrightarrow>
          separate (state_of (fst (GameLoop_update cfg active now1 now2 em s)))) \<and>
         (\<forall>npcs n h t. opt_field em em_npcs = Some npcs \<and> (k, Some n) \<in> set npcs \<and>
             n_def n \<noteq> None \<and> hitpointsOf n = Some h \<and> map_of (trackedNPCs s) k = Some t \<longrightarrow>
          map_has (npcHealthMap (state_of (monitorNPCHealth cfg now1 em s))) k \<and>
          map_of (trackedNPCs (state_of (monitorNPCHealth cfg now1 em s))) k = Some t \<and>
          map_has (npcHealthMap (state_of (fst (GameLoop_update cfg True now1 now2 em s)))) k \<and>
          (map_has (trackedNPCs (state_of (fst (GameLoop_update cfg True now1 now2 em s)))) k \<longleftrightarrow>
             \<not> ((\<exists>s'. monitorNPCHealth cfg now1 em s = Completed s') \<and>
                expired now2 (fst (updateTimer cfg now2 t)))))"
proof -
  let ?mon = "monitorNPCHealth cfg now1 em s"
  have w: "wf_state (state_of ?mon)"
    using assms by (rule monitorNPCHealth_wf)
  have a: "wf_state (state_of (fst (GameLoop_update cfg active now1 now2 em s)))"
    using assms w updateTimers_keeps(1) [of "state_of ?mon" cfg now2]
    by (cases ?mon) (auto simp: GameLoop_update_state)
  have b: "separate (state_of (fst (GameLoop_update cfg active now1 now2 em s)))"
    if "separate s" and "\<forall>npcs j n h. opt_field em em_npcs = Some npcs \<and> (j, Some n) \<in> set npcs \<and>
             n_def n \<noteq> None \<and> hitpointsOf n = Some h \<longrightarrow> \<not> map_has (trackedNPCs s) j"
  proof -
    have "separate (state_of ?mon)"
      using that by (rule monitorNPCHealth_separate)
    then show ?thesis
      using that(1) updateTimers_keeps(2) [of "state_of ?mon" cfg now2]
      by (cases ?mon) (auto simp: GameLoop_update_state)
  qed
  have c: "map_has (npcHealthMap (state_of ?mon)) k \<and>
          map_of (trackedNPCs (state_of ?mon)) k = Some t \<and>
          map_has (npcHealthMap (state_of (fst (GameLoop_update cfg True now1 now2 em s)))) k \<and>
          (map_has (trackedNPCs (state_of (fst (GameLoop_update cfg True now1 now2 em s)))) k \<longleftrightarrow>
             \<not> ((\<exists>s'. ?mon = Completed s') \<and> expired now2 (fst (updateTimer cfg now2 t))))"
    if h: "opt_field em em_npcs = Some npcs \<and> (k, Some n) \<in> set npcs \<and>
             n_def n \<noteq> None \<and> hitpointsOf n = Some h \<and> map_of (trackedNPCs s) k = Some t"
    for npcs n h t
  proof -
    have m: "map_has (npcHealthMap (state_of ?mon)) k"
      and tr: "map_of (trackedNPCs (state_of ?mon)) k = Some t"
      using monitorNPCHealth_reappearing [of em npcs k n h cfg now1 s] h by simp_all
    have d: "distinct (map fst (trackedNPCs (state_of ?mon)))"
      using w by (simp add: wf_state_def)
    show ?thesis
    proof (cases ?mon)
      case (Completed s1)
      then show ?thesis
        using m tr d
        by (simp add: GameLoop_update_state map_has_def map_of_updateTimers)
    next
      case (Threw x s1)
      then show ?thesis
        using m tr by (simp add: GameLoop_update_state map_has_def)
    qed
  qed
  show ?thesis using a b c by blast
qed

theorem registries_separate_witness:
  "wf_state dragon_timer_state \<and> separate dragon_timer_state \<and>
   map_has (trackedNPCs dragon_timer_state) 7 \<and>
   \<not> map_has (trackedNPCs dragon_timer_state) 8 \<and>
   separate (state_of (fst (GameLoop_update default_config True 1500 1500
     (snapshot [(8, Some dragon_alive)]) dragon_timer_state))) \<and>
   map_has (npcHealthMap (state_of (fst (GameLoop_update default_config True 1500 1500
     (snapshot [(8, Some dragon_alive)]) dragon_timer_state)))) 8 \<and>
   map_has (trackedNPCs (state_of (fst (GameLoop_update default_config True 1500 1500
     (snapshot [(8, Some dragon_alive)]) dragon_timer_state)))) 7 \<and>
   separate (state_of (fst (GameLoop_update default_config True 1500 1500
     (snapshot [(7, Some (dragon_alive\<lparr> n_hitpoints := None \<rparr>))]) dragon_timer_state))) \<and>
   map_has (npcHealthMap (state_of (fst (GameLoop_update default_config True 1500 1500
     (snapshot [(7, Some dragon_alive)]) dragon_timer_state)))) 7 \<and>
   map_has (trackedNPCs (state_of (fst (GameLoop_update default_config True 1500 1500
     (snapshot [(7, Some dragon_alive)]) dragon_timer_state)))) 7 \<and>
   map_has (npcHealthMap (state_of (fst (GameLoop_update default_config True 1500 700000
     (snapshot [(7, Some dragon_alive)]) dragon_timer_state)))) 7 \<and>
   \<not> map_has (trackedNPCs (state_of (fst (GameLoop_update default_config True 1500 700000
     (snapshot [(7, Some dragon_alive)]) dragon_timer_state)))) 7"
proof -
  let ?t = "\<lparr> t_id = 7, t_name = Some ''Fire Dragon'', t_position = \<lparr> p_x = 10, p_y = 20 \<rparr>,
        t_level = 1, t_spawnTimestamp = Num 601000, t_respawnTime = Seconds 600,
        t_alerted = False, t_spawned = False \<rparr>"
  have w: "wf_state dragon_timer_state" by code_simp
  have p: "separate dragon_timer_state" by code_simp
  have t7: "map_of (trackedNPCs dragon_timer_state) 7 = Some ?t" by code_simp
  have n8: "\<not> map_has (trackedNPCs dragon_timer_state) 8" by code_simp
  have d: "n_def dragon_alive \<noteq> None"
    and h: "hitpointsOf dragon_alive = Some \<lparr> h_currentLevel = Some 10, h_level = Some 10 \<rparr>"
    by (simp_all add: dragon_alive_def mk_npc_def hitpointsOf_def or_else_def)
  have e8: "opt_field (snapshot [(8, Some dragon_alive)]) em_npcs = Some [(8, Some dragon_alive)]"
    and e7: "opt_field (snapshot [(7, Some dragon_alive)]) em_npcs = Some [(7, Some dragon_alive)]"
    by (simp_all add: snapshot_def opt_field_def)
  have q: "\<forall>npcs j n h. opt_field (snapshot [(8, Some dragon_alive)]) em_npcs = Some npcs \<and>
      (j, Some n) \<in> set npcs \<and> n_def n \<noteq> None \<and> hitpointsOf n = Some h \<longrightarrow>
      \<not> map_has (trackedNPCs dragon_timer_state) j"
    using n8 by (auto simp: e8)
  have nh: "hitpointsOf (dragon_alive\<lparr> n_hitpoints := None \<rparr>) = None"
    by (simp add: dragon_alive_def mk_npc_def hitpointsOf_def or_else_def)
  have q': "\<forall>npcs j n h.
      opt_field (snapshot [(7, Some (dragon_alive\<lparr> n_hitpoints := None \<rparr>))]) em_npcs = Some npcs \<and>
      (j, Some n) \<in> set npcs \<and> n_def n \<noteq> None \<and> hitpointsOf n = Some h \<longrightarrow>
      \<not> map_has (trackedNPCs dragon_timer_state) j"
    using nh by (auto simp: snapshot_def opt_field_def)
  note D = registries_separate [OF w, of default_config True 1500 1500
      "snapshot [(7, Some (dragon_alive\<lparr> n_hitpoints := None \<rparr>))]" 7]
  have a': "separate (state_of (fst (GameLoop_update default_config True 1500 1500
     (snapshot [(7, Some (dragon_alive\<lparr> n_hitpoints := None \<rparr>))]) dragon_timer_state)))"
    using D p q' by blast
  have x1: "\<not> expired 1500 (fst (updateTimer default_config 1500 ?t))" by code_simp
  have x2: "expired 700000 (fst (updateTimer default_config 700000 ?t))" by code_simp
  have "monitorNPCHealth default_config 1500 (snapshot [(7, Some dragon_alive)])
      dragon_timer_state =
    Completed \<lparr> npcHealthMap =
        [(7, \<lparr> hd_hp = 10, hd_maxHP = 10, hd_name = Some ''Fire Dragon'',
               hd_position = None, hd_level = None, hd_npcRef = None \<rparr>)],
      trackedNPCs = [(7, ?t)] \<rparr>"
    by code_simp
  then have c: "\<exists>s'. monitorNPCHealth default_config 1500 (snapshot [(7, Some dragon_alive)])
      dragon_timer_state = Completed s'"
    by blast
  have m8: "map_has (npcHealthMap (state_of (fst (GameLoop_update default_config True 1500 1500
     (snapshot [(8, Some dragon_alive)]) dragon_timer_state)))) 8"
    and m7: "map_has (trackedNPCs (state_of (fst (GameLoop_update default_config True 1500 1500
     (snapshot [(8, Some dragon_alive)]) dragon_timer_state)))) 7"
    by code_simp+
  note A = registries_separate [OF w, of default_config True 1500 1500
      "snapshot [(8, Some dragon_alive)]" 7]
  note B = registries_separate [OF w, of default_config True 1500 1500
      "snapshot [(7, Some dragon_alive)]" 7]
  note C = registries_separate [OF w, of default_config True 1500 700000
      "snapshot [(7, Some dragon_alive)]" 7]
  have a: "separate (state_of (fst (GameLoop_update default_config True 1500 1500
     (snapshot [(8, Some dragon_alive)]) dragon_timer_state)))"
    using A p q by blast
  have in7: "(7, Some dragon_alive) \<in> set [(7::npc_id, Some dragon_alive)]" by simp
  have b: "map_has (npcHealthMap (state_of (fst (GameLoop_update default_config True 1500 1500
     (snapshot [(7, Some dragon_alive)]) dragon_timer_state)))) 7 \<and>
   map_has (trackedNPCs (state_of (fst (GameLoop_update default_config True 1500 1500
     (snapshot [(7, Some dragon_alive)]) dragon_timer_state)))) 7"
    using B e7 in7 d h t7 x1 by blast
  have cc: "map_has (npcHealthMap (state_of (fst (GameLoop_update default_config True 1500 700000
     (snapshot [(7, Some dragon_alive)]) dragon_timer_state)))) 7 \<and>
   \<not> map_has (trackedNPCs (state_of (fst (GameLoop_update default_config True 1500 700000
     (snapshot [(7, Some dragon_alive)]) dragon_timer_state)))) 7"
    using C e7 in7 d h t7 x2 c by blast
  have t7': "map_has (trackedNPCs dragon_timer_state) 7" using t7 by (simp add: map_has_def)
  show ?thesis
    using w p t7' n8 a m8 m7 a' b cc by blast
qed

text \<open>
  Claim C8 as stated fails when the NPC is back in the snapshot while its timer is
  live: the dragon is seen alive, then at zero health, then gone (the timer is
  created), then alive again under the same id; after that frame the id has a health
  record and a timer.
\<close>

theorem registries_separate_counterexample:
  "map_has (npcHealthMap (gameTicks default_config
        [(0, snapshot [(7, Some dragon_alive)]),
         (500, snapshot [(7, Some dragon_dead)]),
         (1000, snapshot []),
         (1500, snapshot [(7, Some dragon_alive)])] init_state)) 7 \<and>
   map_has (trackedNPCs (gameTicks default_config
        [(0, snapshot [(7, Some dragon_alive)]),
         (500, snapshot [(7, Some dragon_dead)]),
         (1000, snapshot []),
         (1500, snapshot [(7, Some dragon_alive)])] init_state)) 7"
  by code_simp


section \<open>The nearest world entity\<close>

lemma str_includes_empty: "str_includes s []"
  by (cases s) simp_all

lemma candidateDistance_iff:
  "candidateDistance incl excludes playerPos maxD (Some e) = Some d \<longleftrightarrow>
     qualifies incl excludes playerPos maxD e \<and> entityDistance playerPos e = Some d"
  by (cases "incl = []")
     (auto simp: candidateDistance_def qualifies_def entityDistance_def list_ex_iff Let_def
        str_includes_empty split: option.splits if_splits)

lemma candidateDistance_None [simp]: "candidateDistance incl excludes playerPos maxD None = None"
  by (simp add: candidateDistance_def)

lemma considerEntity_nearest:
  assumes "nearestSoFar incl excludes playerPos maxD seen acc"
  shows "nearestSoFar incl excludes playerPos maxD (insert entry seen)
           (considerEntity incl excludes playerPos maxD entry acc)"
proof -
  obtain k e where entry: "entry = (k, e)" by (cases entry)
  obtain best bd where acc: "acc = (best, bd)" by (cases acc)
  show ?thesis
  proof (cases "candidateDistance incl excludes playerPos maxD e")
    case None
    then show ?thesis using assms entry acc
      by (auto simp: nearestSoFar_def split: option.splits)
  next
    case (Some d)
    then obtain x where x: "e = Some x" by (cases e) auto
    show ?thesis
    proof (cases bd)
      case None
      then show ?thesis using assms entry acc Some x
        by (fastforce simp: nearestSoFar_def)
    next
      case (Some b)
      show ?thesis
      proof (cases "d < b")
        case True
        then show ?thesis using assms entry acc \<open>candidateDistance incl excludes playerPos maxD e = Some d\<close> x Some
          by (fastforce simp: nearestSoFar_def)
      next
        case False
        then show ?thesis using assms entry acc \<open>candidateDistance incl excludes playerPos maxD e = Some d\<close> x Some
          by (fastforce simp: nearestSoFar_def)
      qed
    qed
  qed
qed

lemma fold_considerEntity_nearest:
  "nearestSoFar incl excludes playerPos maxD seen acc \<Longrightarrow>
   nearestSoFar incl excludes playerPos maxD (seen \<union> set entities)
     (fold (considerEntity incl excludes playerPos maxD) entities acc)"
proof (induction entities arbitrary: seen acc)
  case Nil
  then show ?case by simp
next
  case (Cons entry rest)
  have "nearestSoFar incl excludes playerPos maxD (insert entry seen \<union> set rest)
     (fold (considerEntity incl excludes playerPos maxD) rest
        (considerEntity incl excludes playerPos maxD entry acc))"
    using Cons.IH [OF considerEntity_nearest [OF Cons.prems]] .
  then show ?case by simp
qed

lemma nearest_result:
  "nearestSoFar incl excludes playerPos maxD (set entities)
     (fold (considerEntity incl excludes playerPos maxD) entities (None, None))"
  using fold_considerEntity_nearest [of incl excludes playerPos maxD "{}" "(None, None)" entities]
  by (simp add: nearestSoFar_def)

lemma fold_considerEntity_fst_snd:
  "nearestSoFar incl excludes playerPos maxD seen acc \<Longrightarrow> (fst acc = None) = (snd acc = None)"
  by (auto simp: nearestSoFar_def split: option.splits)

lemmas nearest_eval = findNearestWorldEntityByName_def includeOf_def excludesOf_def trim_def toLowerCase_def
  toLowerChar_def isWhiteSpace_def getPlayerWorldPosition_def mk_player_def mk_entity_def opt_field_def
  or_else_def or_zero_def candidateDistance_def getEntityWorldPosition_def firstMesh_def distanceXZ_def
  entityDistance_def


text \<open>
  Claim C9, as amended. When \<open>findNearestWorldEntityByName\<close> returns an entity, it
  is an entity of the registry with a non-empty name whose lowercase form contains the
  normalised include string and none of the non-empty lowercased exclude strings, its
  position resolves, its XZ distance to the player is at most \<open>maxTargetDistance\<close>,
  and no entity of the registry that qualifies in the same way is strictly nearer. It
  returns null exactly when the registry or the player's position is unavailable or no
  entity qualifies. Empty exclude strings and entities with an empty name are skipped
  by the code, which the claim does not say.
\<close>

theorem nearest_entity:
  "(findNearestWorldEntityByName worldEntities maxD nameIncludes nameExcludes p = Some e \<longrightarrow>
      (\<exists>entities playerPos. worldEntities = Some entities \<and>
          getPlayerWorldPosition p = Some playerPos \<and>
          (\<exists>k. (k, Some e) \<in> set entities) \<and>
          qualifies (includeOf nameIncludes) (excludesOf nameExcludes) playerPos maxD e \<and>
          (\<forall>k e' d d'. (k, Some e') \<in> set entities \<and>
              qualifies (includeOf nameIncludes) (excludesOf nameExcludes) playerPos maxD e' \<and>
              entityDistance playerPos e = Some d \<and> entityDistance playerPos e' = Some d'
              \<longrightarrow> \<not> d' < d))) \<and>
   (findNearestWorldEntityByName worldEntities maxD nameIncludes nameExcludes p = None \<longleftrightarrow>
      worldEntities = None \<or> getPlayerWorldPosition p = None \<or>
      (\<exists>entities playerPos. worldEntities = Some entities \<and>
          getPlayerWorldPosition p = Some playerPos \<and>
          (\<forall>k e'. (k, Some e') \<in> set entities \<longrightarrow>
             \<not> qualifies (includeOf nameIncludes) (excludesOf nameExcludes) playerPos maxD e')))"
proof (cases worldEntities)
  case None
  then show ?thesis by (simp add: findNearestWorldEntityByName_def)
next
  case (Some entities)
  show ?thesis
  proof (cases "getPlayerWorldPosition p")
    case None
    then show ?thesis using Some by (simp add: findNearestWorldEntityByName_def)
  next
    case (Some playerPos)
    let ?incl = "includeOf nameIncludes" and ?excl = "excludesOf nameExcludes"
    let ?r = "fold (considerEntity ?incl ?excl playerPos maxD) entities (None, None)"
    have res: "findNearestWorldEntityByName worldEntities maxD nameIncludes nameExcludes p = fst ?r"
      using Some \<open>worldEntities = Some entities\<close> by (simp add: findNearestWorldEntityByName_def)
    have inv: "nearestSoFar ?incl ?excl playerPos maxD (set entities) ?r"
      by (rule nearest_result)
    have a: "(\<exists>k. (k, Some e) \<in> set entities) \<and>
          qualifies ?incl ?excl playerPos maxD e \<and>
          (\<forall>k e' d d'. (k, Some e') \<in> set entities \<and>
              qualifies ?incl ?excl playerPos maxD e' \<and>
              entityDistance playerPos e = Some d \<and> entityDistance playerPos e' = Some d'
              \<longrightarrow> \<not> d' < d)"
      if f: "fst ?r = Some e" for e
    proof -
      from f obtain d where sd: "snd ?r = Some d"
        using fold_considerEntity_fst_snd [OF inv] by (cases "snd ?r") auto
      have 1: "\<exists>k. (k, Some e) \<in> set entities"
        and 2: "candidateDistance ?incl ?excl playerPos maxD (Some e) = Some d"
        and 3: "\<forall>(k, e') \<in> set entities. \<forall>d'. candidateDistance ?incl ?excl playerPos maxD e' = Some d' \<longrightarrow> d \<le> d'"
        using inv f sd by (auto simp: nearestSoFar_def)
      have q: "qualifies ?incl ?excl playerPos maxD e" and de: "entityDistance playerPos e = Some d"
        using 2 by (simp_all add: candidateDistance_iff)
      have "\<forall>k e' x d'. (k, Some e') \<in> set entities \<and>
              qualifies ?incl ?excl playerPos maxD e' \<and>
              entityDistance playerPos e = Some x \<and> entityDistance playerPos e' = Some d'
              \<longrightarrow> \<not> d' < x"
      proof (intro allI impI)
        fix k e' x d'
        assume h: "(k, Some e') \<in> set entities \<and>
              qualifies ?incl ?excl playerPos maxD e' \<and>
              entityDistance playerPos e = Some x \<and> entityDistance playerPos e' = Some d'"
        then have "candidateDistance ?incl ?excl playerPos maxD (Some e') = Some d'"
          by (simp add: candidateDistance_iff)
        then have "d \<le> d'" using 3 h by blast
        moreover have "x = d" using h de by simp
        ultimately show "\<not> d' < x" by simp
      qed
      then show ?thesis using 1 q by blast
    qed
    have b: "fst ?r = None \<longleftrightarrow>
          (\<forall>k e'. (k, Some e') \<in> set entities \<longrightarrow> \<not> qualifies ?incl ?excl playerPos maxD e')"
    proof
      assume "fst ?r = None"
      then have sn: "snd ?r = None" using fold_considerEntity_fst_snd [OF inv] by simp
      then have "\<forall>(k, e) \<in> set entities. candidateDistance ?incl ?excl playerPos maxD e = None"
        using inv by (simp add: nearestSoFar_def)
      then have n: "\<And>k e'. (k, Some e') \<in> set entities \<Longrightarrow>
          candidateDistance ?incl ?excl playerPos maxD (Some e') = None" by blast
      show "\<forall>k e'. (k, Some e') \<in> set entities \<longrightarrow> \<not> qualifies ?incl ?excl playerPos maxD e'"
      proof (intro allI impI notI)
        fix k e'
        assume m: "(k, Some e') \<in> set entities" and q: "qualifies ?incl ?excl playerPos maxD e'"
        from q obtain d where "entityDistance playerPos e' = Some d" by (auto simp: qualifies_def)
        then have "candidateDistance ?incl ?excl playerPos maxD (Some e') = Some d"
          using q by (simp add: candidateDistance_iff)
        then show False using n [OF m] by simp
      qed
    next
      assume nq: "\<forall>k e'. (k, Some e') \<in> set entities \<longrightarrow> \<not> qualifies ?incl ?excl playerPos maxD e'"
      show "fst ?r = None"
      proof (rule ccontr)
        assume "fst ?r \<noteq> None"
        then obtain e where "fst ?r = Some e" by auto
        then have "(\<exists>k. (k, Some e) \<in> set entities) \<and> qualifies ?incl ?excl playerPos maxD e"
          using a [of e] by blast
        then show False using nq by blast
      qed
    qed
    show ?thesis
      using res a [of e] b Some \<open>worldEntities = Some entities\<close> by (simp; blast)
  qed
qed

theorem nearest_entity_witness:
  "findNearestWorldEntityByName
     (Some [(1, Some (mk_entity ''Oak tree'' 0 0)), (2, Some (mk_entity ''Tree'' 0 1)),
            (3, Some (mk_entity ''Pine Tree'' 0 0))])
     30 (Some ''tree'') (Some [''oak'']) (Some (mk_player 0 0)) =
   Some (mk_entity ''Pine Tree'' 0 0) \<and>
   qualifies (includeOf (Some ''tree'')) (excludesOf (Some [''oak''])) \<lparr> wp_x = 0, wp_z = 0 \<rparr> 30
     (mk_entity ''Pine Tree'' 0 0)"
proof -
  have r: "findNearestWorldEntityByName
     (Some [(1, Some (mk_entity ''Oak tree'' 0 0)), (2, Some (mk_entity ''Tree'' 0 1)),
            (3, Some (mk_entity ''Pine Tree'' 0 0))])
     30 (Some ''tree'') (Some [''oak'']) (Some (mk_player 0 0)) =
   Some (mk_entity ''Pine Tree'' 0 0)"
    by (simp add: nearest_eval)
  have p: "getPlayerWorldPosition (Some (mk_player 0 0)) = Some \<lparr> wp_x = 0, wp_z = 0 \<rparr>"
    by (simp add: nearest_eval)
  note T = nearest_entity [of
     "Some [(1, Some (mk_entity ''Oak tree'' 0 0)), (2, Some (mk_entity ''Tree'' 0 1)),
            (3, Some (mk_entity ''Pine Tree'' 0 0))]"
     30 "Some ''tree''" "Some [''oak'']" "Some (mk_player 0 0)" "mk_entity ''Pine Tree'' 0 0"]
  have "qualifies (includeOf (Some ''tree'')) (excludesOf (Some [''oak''])) \<lparr> wp_x = 0, wp_z = 0 \<rparr> 30
     (mk_entity ''Pine Tree'' 0 0)"
    using T r p by auto
  then show ?thesis using r by simp
qed


text \<open>
  Claim C9 as stated fails in two ways. With the empty string among the excludes,
  the entity ``tree'' is returned although its name contains that exclude string. With
  an empty include string, the entity with the empty name at distance 0 meets every
  condition of the claim and is strictly nearer than ``oak'' at distance 1, which is
  returned.
\<close>

theorem nearest_entity_counterexample:
  "findNearestWorldEntityByName (Some [(1, Some (mk_entity ''tree'' 0 0))])
     30 (Some ''tree'') (Some ['''']) (Some (mk_player 0 0)) = Some (mk_entity ''tree'' 0 0) \<and>
   str_includes (toLowerCase ''tree'') (toLowerCase '''') \<and>
   findNearestWorldEntityByName
     (Some [(1, Some (mk_entity '''' 0 0)), (2, Some (mk_entity ''oak'' 0 1))])
     30 (Some '''') (Some []) (Some (mk_player 0 0)) = Some (mk_entity ''oak'' 0 1) \<and>
   str_includes (toLowerCase '''') (includeOf (Some '''')) \<and>
   entityDistance \<lparr> wp_x = 0, wp_z = 0 \<rparr> (mk_entity '''' 0 0) = Some 0 \<and>
   entityDistance \<lparr> wp_x = 0, wp_z = 0 \<rparr> (mk_entity ''oak'' 0 1) = Some 1 \<and>
   getPlayerWorldPosition (Some (mk_player 0 0)) = Some \<lparr> wp_x = 0, wp_z = 0 \<rparr>"
  by (simp add: nearest_eval)

end
